theory Spec2Isabelle
  imports Main
begin

section \<open>Python strings\<close>

text \<open>
  A Python \<open>str\<close> is modelled as a \<open>string\<close>, one \<open>char\<close> per code point; the model
  therefore covers the lines whose code points are below 256. Every delimiter that
  \<open>md_katex/extension.py\<close> looks at is ASCII. A backslash cannot be written inside a
  string literal, so it has a name.
\<close>

abbreviation BSL :: char where
  "BSL \<equiv> CHR 0x5C"

abbreviation LF :: char where
  "LF \<equiv> CHR 0x0A"

text \<open>The exceptions that can leave the code: \<open>ValueError\<close> is always caught.\<close>

datatype error = IndexError | KeyError

text \<open>\<open>str.isspace\<close> on one character (also the class \<open>\s\<close> of \<open>re\<close>), below 256.\<close>

definition isspace :: "char \<Rightarrow> bool" where
  "isspace c = (c \<in> set [CHR 0x09, CHR 0x0A, CHR 0x0B, CHR 0x0C, CHR 0x0D,
                          CHR 0x1C, CHR 0x1D, CHR 0x1E, CHR 0x1F, CHR 0x20,
                          CHR 0x85, CHR 0xA0])"

definition lstrip :: "string \<Rightarrow> string" where
  "lstrip s = dropWhile isspace s"

definition rstrip :: "string \<Rightarrow> string" where
  "rstrip s = rev (dropWhile isspace (rev s))"

text \<open>\<open>sep.join(xs)\<close>.\<close>

fun join :: "string \<Rightarrow> string list \<Rightarrow> string" where
  "join sep [] = []"
| "join sep [x] = x"
| "join sep (x # y # ys) = x @ sep @ join sep (y # ys)"

text \<open>The first occurrence of \<open>sub\<close> in \<open>s\<close>, as \<open>s.find(sub)\<close> with \<open>None\<close> for \<open>-1\<close>.\<close>

fun find_sub :: "string \<Rightarrow> string \<Rightarrow> nat option" where
  "find_sub sub [] = (if sub = [] then Some 0 else None)"
| "find_sub sub (c # cs) =
     (if take (length sub) (c # cs) = sub then Some 0
      else map_option Suc (find_sub sub cs))"

text \<open>\<open>line.index(sub, start)\<close> for \<open>start \<ge> 0\<close>; \<open>None\<close> is the \<open>ValueError\<close>.\<close>

definition str_index :: "string \<Rightarrow> string \<Rightarrow> nat \<Rightarrow> nat option" where
  "str_index line sub start =
     (if length line < start then None
      else map_option (\<lambda>i. start + i) (find_sub sub (drop start line)))"

text \<open>\<open>sub in line\<close>.\<close>

definition contains :: "string \<Rightarrow> string \<Rightarrow> bool" where
  "contains sub line = (find_sub sub line \<noteq> None)"

text \<open>\<open>line[a:b]\<close> for \<open>0 \<le> a\<close> and \<open>0 \<le> b\<close>.\<close>

definition slice :: "string \<Rightarrow> nat \<Rightarrow> nat \<Rightarrow> string" where
  "slice line a b = take (b - a) (drop a line)"

text \<open>\<open>line[:i]\<close> and \<open>line[i:]\<close> for any Python integer: a negative index counts from the end.\<close>

definition slice_to :: "string \<Rightarrow> int \<Rightarrow> string" where
  "slice_to line i = (if i < 0 then take (nat (int (length line) + i)) line else take (nat i) line)"

definition slice_from :: "string \<Rightarrow> int \<Rightarrow> string" where
  "slice_from line i = (if i < 0 then drop (nat (int (length line) + i)) line else drop (nat i) line)"

text \<open>\<open>line[i]\<close>: a negative index counts from the end, an index out of range raises.\<close>

definition getitem :: "string \<Rightarrow> int \<Rightarrow> error + char" where
  "getitem line i =
     (if 0 \<le> i \<and> i < int (length line) then Inr (line ! nat i)
      else if i < 0 \<and> - int (length line) \<le> i then Inr (line ! nat (int (length line) + i))
      else Inl IndexError)"

section \<open>Delimiter table and escaper\<close>

text \<open>The value of a match object that the code reads: \<open>start()\<close>, \<open>end()\<close>, \<open>group()\<close>.\<close>

record re_match =
  match_start :: nat
  match_end :: nat
  match_group :: string

text \<open>\<open>CODE_SPAN_DELIM_RE.search(line, pos)\<close>: the leftmost backtick at or after \<open>pos\<close>,
  taken with the next character when that is a backtick too (the pattern is greedy).\<close>

definition CODE_SPAN_DELIM_RE_search :: "string \<Rightarrow> nat \<Rightarrow> re_match option" where
  "CODE_SPAN_DELIM_RE_search line pos =
     (case str_index line ''`'' pos of
        None \<Rightarrow> None
      | Some i \<Rightarrow>
          if Suc i < length line \<and> line ! Suc i = CHR ''`''
          then Some \<lparr>match_start = i, match_end = i + 2, match_group = ''``''\<rparr>
          else Some \<lparr>match_start = i, match_end = i + 1, match_group = ''`''\<rparr>)"

text \<open>\<open>INLINE_MATH_START_DELIM_RE.search(line, pos)\<close>: the pattern is the literal
  backslash, opening parenthesis.\<close>

definition INLINE_MATH_START_DELIM_RE_search :: "string \<Rightarrow> nat \<Rightarrow> re_match option" where
  "INLINE_MATH_START_DELIM_RE_search line pos =
     (case str_index line [BSL, CHR ''(''] pos of
        None \<Rightarrow> None
      | Some i \<Rightarrow> Some \<lparr>match_start = i, match_end = i + 2, match_group = [BSL, CHR ''('']\<rparr>)"

text \<open>\<open>BLOCK_MATH_START_DELIM_RE.match(line)\<close>: \<open>match\<close> anchors the pattern at index 0.\<close>

definition BLOCK_MATH_START_DELIM_RE_match :: "string \<Rightarrow> re_match option" where
  "BLOCK_MATH_START_DELIM_RE_match line =
     (if take 2 line = [BSL, CHR ''['']
      then Some \<lparr>match_start = 0, match_end = 2, match_group = [BSL, CHR ''['']\<rparr>
      else None)"

definition DELIM_START_END_MAP :: "(string \<times> string) list" where
  "DELIM_START_END_MAP =
     [([BSL, CHR ''(''], [BSL, CHR '')'']),
      ([BSL, CHR ''[''], [BSL, CHR '']'']),
      (''$`'', ''`$''),
      (''$``'', ''``$''),
      (''$'', ''$''),
      (''$$'', ''$$''),
      (BSL # ''f$'', ''$'' @ [BSL, CHR ''f'']),
      (BSL # ''f['', '']'' @ [BSL, CHR ''f''])]"

text \<open>The character class of \<open>ESCAPE_BACKSLASHES_RE\<close>.\<close>

definition escaped_punctuation :: "char list" where
  "escaped_punctuation = ''(){}[]*!`+-_#''"

text \<open>\<open>ESCAPE_BACKSLASHES_RE.sub\<close>: matches are found left to right and do not overlap;
  each is a backslash and one character of the class, replaced by two backslashes and
  that character.\<close>

fun escape_backslashes :: "string \<Rightarrow> string" where
  "escape_backslashes (c # d # rest) =
     (if c = BSL \<and> d \<in> set escaped_punctuation
      then BSL # BSL # d # escape_backslashes rest
      else c # escape_backslashes (d # rest))"
| "escape_backslashes text = text"

section \<open>Inline scanner\<close>

record InlineMathItem =
  im_start :: int
  im_end :: int
  im_inline_math :: string

text \<open>What the searches return lies inside the line, at or after the cursor.\<close>

lemma find_sub_bound:
  "find_sub sub s = Some i \<Longrightarrow> i + length sub \<le> length s"
proof (induction s arbitrary: i)
  case Nil
  then show ?case by (simp split: if_splits)
next
  case (Cons c cs)
  show ?case
  proof (cases "take (length sub) (c # cs) = sub")
    case True
    then have "length (take (length sub) (c # cs)) = length sub"
      by simp
    then have "length sub \<le> length (c # cs)"
      by simp
    with True Cons.prems show ?thesis by simp
  next
    case False
    with Cons.prems obtain j where "find_sub sub cs = Some j" "i = Suc j"
      by auto
    with Cons.IH show ?thesis by fastforce
  qed
qed

lemma str_index_bound:
  "str_index line sub start = Some i \<Longrightarrow> start \<le> i \<and> i + length sub \<le> length line"
  by (auto simp: str_index_def split: if_splits dest!: find_sub_bound)

lemma INLINE_MATH_search_bound:
  "INLINE_MATH_START_DELIM_RE_search line pos = Some m \<Longrightarrow>
     pos \<le> match_start m \<and> match_end m = match_start m + 2 \<and> match_end m \<le> length line
     \<and> match_group m = [BSL, CHR ''('']"
  by (auto simp: INLINE_MATH_START_DELIM_RE_search_def split: option.splits dest!: str_index_bound)

lemma CODE_SPAN_search_bound:
  "CODE_SPAN_DELIM_RE_search line pos = Some m \<Longrightarrow>
     pos \<le> match_start m \<and> match_start m < length line
     \<and> match_end m = match_start m + length (match_group m)
     \<and> (match_group m = ''`'' \<or> match_group m = ''``'')"
  by (auto simp: CODE_SPAN_DELIM_RE_search_def split: option.splits if_splits dest!: str_index_bound)

text \<open>A generator that has yielded \<open>items\<close> and goes on as \<open>r\<close>: an exception in \<open>r\<close>
  reaches the consumer, which is \<open>list(...)\<close>, and the items are lost with it.\<close>

definition yield_then :: "InlineMathItem list \<Rightarrow> error + InlineMathItem list \<Rightarrow> error + InlineMathItem list" where
  "yield_then items r = (case r of Inl e \<Rightarrow> Inl e | Inr later \<Rightarrow> Inr (items @ later))"

text \<open>The inner loop of \<open>iter_inline_katex\<close> when no code span delimiter is left
  (source lines 86 to 103), from the cursor \<open>math_pos\<close>.\<close>

function inline_math_after :: "string \<Rightarrow> nat \<Rightarrow> error + InlineMathItem list" where
  "inline_math_after line math_pos =
     (case INLINE_MATH_START_DELIM_RE_search line math_pos of
        None \<Rightarrow> Inr []
      | Some m \<Rightarrow>
          (case map_of DELIM_START_END_MAP (match_group m) of
             None \<Rightarrow> Inl KeyError
           | Some closing \<Rightarrow>
               (case str_index line closing (match_end m) of
                  None \<Rightarrow> inline_math_after line (match_start m + length (match_group m))
                | Some math_end \<Rightarrow>
                    yield_then
                      [\<lparr>im_start = int (match_start m),
                        im_end = int (math_end + length (match_group m)),
                        im_inline_math = slice line (match_start m + length (match_group m)) math_end\<rparr>]
                      (inline_math_after line (math_end + length (match_group m))))))"
  by pat_completeness auto
termination
proof (relation "measure (\<lambda>(line, math_pos). Suc (length line) - math_pos)")
  show "wf (measure (\<lambda>(line, math_pos). Suc (length line) - math_pos))" by simp
next
  fix line math_pos m closing
  assume "INLINE_MATH_START_DELIM_RE_search line math_pos = Some m"
  then show "((line, match_start m + length (match_group m)), (line, math_pos))
              \<in> measure (\<lambda>(line, math_pos). Suc (length line) - math_pos)"
    by (auto dest!: INLINE_MATH_search_bound)
next
  fix line math_pos m closing math_end
  assume "INLINE_MATH_START_DELIM_RE_search line math_pos = Some m"
    and "str_index line closing (match_end m) = Some math_end"
  then show "((line, math_end + length (match_group m)), (line, math_pos))
              \<in> measure (\<lambda>(line, math_pos). Suc (length line) - math_pos)"
    by (auto dest!: INLINE_MATH_search_bound str_index_bound)
qed

text \<open>The inner loop before a code span delimiter that starts at \<open>search_end_pos\<close>
  (source lines 107 to 125).\<close>

function inline_math_before :: "string \<Rightarrow> nat \<Rightarrow> nat \<Rightarrow> error + InlineMathItem list" where
  "inline_math_before line search_end_pos math_pos =
     (if math_pos \<le> search_end_pos then
        (case INLINE_MATH_START_DELIM_RE_search line math_pos of
           None \<Rightarrow> Inr []
         | Some m \<Rightarrow>
             if search_end_pos < match_end m then Inr []
             else
               (case map_of DELIM_START_END_MAP (match_group m) of
                  None \<Rightarrow> Inl KeyError
                | Some closing \<Rightarrow>
                    (case str_index line closing (match_end m) of
                       None \<Rightarrow> inline_math_before line search_end_pos
                                 (match_start m + length (match_group m))
                     | Some math_end \<Rightarrow>
                         yield_then
                           [\<lparr>im_start = int (match_start m),
                             im_end = int (math_end + length (match_group m)),
                             im_inline_math = slice line (match_start m + length (match_group m)) math_end\<rparr>]
                           (inline_math_before line search_end_pos
                              (math_end + length (match_group m))))))
      else Inr [])"
  by pat_completeness auto
termination
proof (relation "measure (\<lambda>(line, search_end_pos, math_pos). Suc (length line) - math_pos)")
  show "wf (measure (\<lambda>(line, search_end_pos, math_pos). Suc (length line) - math_pos))" by simp
next
  fix line and search_end_pos :: nat and math_pos m closing
  assume "INLINE_MATH_START_DELIM_RE_search line math_pos = Some m"
  then show "((line, search_end_pos, match_start m + length (match_group m)), (line, search_end_pos, math_pos))
              \<in> measure (\<lambda>(line, search_end_pos, math_pos). Suc (length line) - math_pos)"
    by (auto dest!: INLINE_MATH_search_bound)
next
  fix line and search_end_pos :: nat and math_pos m closing math_end
  assume "INLINE_MATH_START_DELIM_RE_search line math_pos = Some m"
    and "str_index line closing (match_end m) = Some math_end"
  then show "((line, search_end_pos, math_end + length (match_group m)), (line, search_end_pos, math_pos))
              \<in> measure (\<lambda>(line, search_end_pos, math_pos). Suc (length line) - math_pos)"
    by (auto dest!: INLINE_MATH_search_bound str_index_bound)
qed

text \<open>The outer loop of \<open>iter_inline_katex\<close>, from the cursor \<open>pos\<close>. In the source
  \<open>end\<close> is the index of the last backtick of the closing run.\<close>

function iter_inline_katex_from :: "string \<Rightarrow> nat \<Rightarrow> error + InlineMathItem list" where
  "iter_inline_katex_from line pos =
     (case CODE_SPAN_DELIM_RE_search line pos of
        None \<Rightarrow> inline_math_after line pos
      | Some cm \<Rightarrow>
          (case inline_math_before line (match_start cm) pos of
             Inl e \<Rightarrow> Inl e
           | Inr found \<Rightarrow>
               (case str_index line (match_group cm) (match_start cm + length (match_group cm)) of
                  None \<Rightarrow>
                    yield_then found
                      (iter_inline_katex_from line (match_start cm + length (match_group cm)))
                | Some k \<Rightarrow>
                    (case getitem line (int (match_start cm) - 1) of
                       Inl e \<Rightarrow> Inl e
                     | Inr char_before \<Rightarrow>
                         if char_before \<noteq> CHR ''$'' then
                           yield_then found
                             (iter_inline_katex_from line (k + (length (match_group cm) - 1)))
                         else
                           (case getitem line (int (k + (length (match_group cm) - 1)) + 1) of
                              Inl e \<Rightarrow> Inl e
                            | Inr char_after \<Rightarrow>
                                if char_after \<noteq> CHR ''$'' then
                                  yield_then found
                                    (iter_inline_katex_from line (k + (length (match_group cm) - 1)))
                                else
                                  yield_then
                                    (found @
                                     [\<lparr>im_start = int (match_start cm) - 1,
                                       im_end = int (k + (length (match_group cm) - 1)) + 2,
                                       im_inline_math =
                                         slice line (match_start cm + 1)
                                           (k + (length (match_group cm) - 1) - length (match_group cm) + 1)\<rparr>])
                                    (iter_inline_katex_from line
                                       (k + (length (match_group cm) - 1) + length (match_group cm))))))))"
  by pat_completeness auto
termination
proof (relation "measure (\<lambda>(line, pos). Suc (length line) - pos)")
  show "wf (measure (\<lambda>(line, pos). Suc (length line) - pos))" by simp
next
  fix line pos cm
  assume "CODE_SPAN_DELIM_RE_search line pos = Some cm"
  then show "((line, match_start cm + length (match_group cm)), (line, pos))
              \<in> measure (\<lambda>(line, pos). Suc (length line) - pos)"
    by (auto dest!: CODE_SPAN_search_bound)
next
  fix line pos cm k
  assume "CODE_SPAN_DELIM_RE_search line pos = Some cm"
    and "str_index line (match_group cm) (match_start cm + length (match_group cm)) = Some k"
  then show "((line, k + (length (match_group cm) - 1)), (line, pos))
              \<in> measure (\<lambda>(line, pos). Suc (length line) - pos)"
    by (auto dest!: CODE_SPAN_search_bound str_index_bound)
next
  fix line pos cm k
  assume "CODE_SPAN_DELIM_RE_search line pos = Some cm"
    and "str_index line (match_group cm) (match_start cm + length (match_group cm)) = Some k"
  then show "((line, k + (length (match_group cm) - 1)), (line, pos))
              \<in> measure (\<lambda>(line, pos). Suc (length line) - pos)"
    by (auto dest!: CODE_SPAN_search_bound str_index_bound)
next
  fix line pos cm k
  assume "CODE_SPAN_DELIM_RE_search line pos = Some cm"
    and "str_index line (match_group cm) (match_start cm + length (match_group cm)) = Some k"
  then show "((line, k + (length (match_group cm) - 1) + length (match_group cm)), (line, pos))
              \<in> measure (\<lambda>(line, pos). Suc (length line) - pos)"
    by (auto dest!: CODE_SPAN_search_bound str_index_bound)
qed

definition iter_inline_katex :: "string \<Rightarrow> error + InlineMathItem list" where
  "iter_inline_katex line = iter_inline_katex_from line 0"

section \<open>Block state machine\<close>

text \<open>The group \<open>(`{3,}|~{3,})\<close> can only be the whole run of one fence character at the
  head of the text: the run it is tried on is never followed by the same character.\<close>

definition fence_run :: "string \<Rightarrow> string" where
  "fence_run s =
     (case s of
        [] \<Rightarrow> []
      | c # _ \<Rightarrow> if c = CHR ''`'' \<or> c = CHR ''~'' then takeWhile (\<lambda>d. d = c) s else [])"

text \<open>\<open>CODE_FENCE_RE.match(line)\<close> and \<open>CODE_FENCE_MATH_START_RE.match(line)\<close>, as the pair
  \<open>(group(1), group(2))\<close>. No whitespace character is a fence character, so \<open>group(1)\<close>
  is all the leading whitespace.\<close>

definition CODE_FENCE_RE_match :: "string \<Rightarrow> (string \<times> string) option" where
  "CODE_FENCE_RE_match line =
     (if 3 \<le> length (fence_run (dropWhile isspace line))
      then Some (takeWhile isspace line, fence_run (dropWhile isspace line))
      else None)"

definition CODE_FENCE_MATH_START_RE_match :: "string \<Rightarrow> (string \<times> string) option" where
  "CODE_FENCE_MATH_START_RE_match line =
     (if 3 \<le> length (fence_run (dropWhile isspace line))
         \<and> take 4 (drop (length (fence_run (dropWhile isspace line))) (dropWhile isspace line)) = ''math''
      then Some (takeWhile isspace line, fence_run (dropWhile isspace line))
      else None)"

text \<open>\<open>block_math_lines[0]\<close> raises on an empty list; \<open>block_math_lines[1:-1]\<close> never does.\<close>

definition enclose_fence_block_math :: "string list \<Rightarrow> error + string" where
  \<open>enclose_fence_block_math block_math_lines =
     (case block_math_lines of
        [] \<Rightarrow> Inl IndexError
      | first # _ \<Rightarrow>
          Inr (''<div class="math-block">'' @ [BSL, CHR ''['', LF]
               @ rstrip (join [LF]
                    (map (\<lambda>line. slice_from line (int (length first - length (lstrip first))))
                       (butlast (tl block_math_lines))))
               @ [LF, BSL, CHR '']''] @ ''</div>''))\<close>

definition enclose_non_fence_block_math :: "string list \<Rightarrow> string" where
  \<open>enclose_non_fence_block_math block_math_lines =
     ''<div class="math-block">'' @ [BSL, CHR ''['', LF]
     @ rstrip (join [LF] (butlast (tl block_math_lines)))
     @ [LF, BSL, CHR '']''] @ ''</div>''\<close>

definition enclose_inline_math :: "string \<Rightarrow> string" where
  \<open>enclose_inline_math inline_math =
     escape_backslashes
       (''<span class="math-inline">'' @ [BSL, CHR ''(''] @ inline_math @ [BSL, CHR '')''] @ ''</span>'')\<close>

text \<open>The local variables of \<open>_iter_lines\<close>.\<close>

record scan_state =
  is_in_code_fence_math :: bool
  is_in_code_fence :: bool
  is_in_math_block :: bool
  expected_code_fence_close :: string
  expected_math_block_close :: string
  block_math_lines :: "string list"

definition init_state :: scan_state where
  "init_state =
     \<lparr>is_in_code_fence_math = False, is_in_code_fence = False, is_in_math_block = False,
      expected_code_fence_close = ''```'', expected_math_block_close = [BSL, CHR '']''],
      block_math_lines = []\<rparr>"

text \<open>The replacement of one found item in the line (source line 241).\<close>

definition replace_item :: "string \<Rightarrow> InlineMathItem \<Rightarrow> string" where
  "replace_item line code =
     slice_to line (im_start code) @ enclose_inline_math (im_inline_math code)
     @ slice_from line (im_end code)"

text \<open>One turn of the loop over the lines: the new state and the lines yielded in this
  turn, or the exception that ends the generator.\<close>

definition iter_lines_step :: "scan_state \<Rightarrow> string \<Rightarrow> error + scan_state \<times> string list" where
  "iter_lines_step s line =
     (if is_in_code_fence s then
        Inr (if rstrip line = expected_code_fence_close s
             then s\<lparr>is_in_code_fence := False\<rparr> else s, [line])
      else if is_in_code_fence_math s then
        (if rstrip line = expected_code_fence_close s then
           (case enclose_fence_block_math (block_math_lines s @ [line]) of
              Inl e \<Rightarrow> Inl e
            | Inr enclosed_block_math \<Rightarrow>
                Inr (s\<lparr>is_in_code_fence_math := False, block_math_lines := []\<rparr>,
                     [enclosed_block_math]))
         else Inr (s\<lparr>block_math_lines := block_math_lines s @ [line]\<rparr>, []))
      else if is_in_math_block s then
        (if contains (expected_math_block_close s) line then
           Inr (s\<lparr>is_in_math_block := False, block_math_lines := []\<rparr>,
                [enclose_non_fence_block_math (block_math_lines s @ [line])])
         else Inr (s\<lparr>block_math_lines := block_math_lines s @ [line]\<rparr>, []))
      else
        (case CODE_FENCE_MATH_START_RE_match line of
           Some (prefix, fence) \<Rightarrow>
             Inr (s\<lparr>is_in_code_fence_math := True,
                    expected_code_fence_close := prefix @ fence,
                    block_math_lines := block_math_lines s @ [line]\<rparr>, [])
         | None \<Rightarrow>
             (case CODE_FENCE_RE_match line of
                Some (prefix, fence) \<Rightarrow>
                  Inr (s\<lparr>is_in_code_fence := True,
                         expected_code_fence_close := prefix @ fence\<rparr>, [line])
              | None \<Rightarrow>
                  (case BLOCK_MATH_START_DELIM_RE_match line of
                     Some block_math_match \<Rightarrow>
                       (case map_of DELIM_START_END_MAP (match_group block_math_match) of
                          None \<Rightarrow> Inl KeyError
                        | Some closing \<Rightarrow>
                            Inr (s\<lparr>is_in_math_block := True,
                                   expected_code_fence_close := closing,
                                   block_math_lines := block_math_lines s @ [line]\<rparr>, []))
                   | None \<Rightarrow>
                       (case iter_inline_katex line of
                          Inl e \<Rightarrow> Inl e
                        | Inr inline_codes \<Rightarrow>
                            Inr (s, [foldl replace_item line (rev inline_codes)]))))))"

text \<open>The loop over the lines, from a state.\<close>

fun iter_lines_loop :: "scan_state \<Rightarrow> string list \<Rightarrow> error + scan_state \<times> string list" where
  "iter_lines_loop s [] = Inr (s, [])"
| "iter_lines_loop s (line # lines) =
     (case iter_lines_step s line of
        Inl e \<Rightarrow> Inl e
      | Inr (s', out) \<Rightarrow>
          (case iter_lines_loop s' lines of
             Inl e \<Rightarrow> Inl e
           | Inr (s'', out') \<Rightarrow> Inr (s'', out @ out')))"

text \<open>\<open>DebaoKatexPreprocessor.run\<close>: the lines yielded in the loop, then the lines of a
  block that was never closed.\<close>

definition run :: "string list \<Rightarrow> error + string list" where
  "run lines =
     (case iter_lines_loop init_state lines of
        Inl e \<Rightarrow> Inl e
      | Inr (s, out) \<Rightarrow> Inr (out @ block_math_lines s))"

section \<open>Notions used in the statements\<close>

text \<open>The state \<open>Normal\<close> of the specification: none of the three flags is set.\<close>

definition Normal :: "scan_state \<Rightarrow> bool" where
  "Normal s = (\<not> is_in_code_fence s \<and> \<not> is_in_code_fence_math s \<and> \<not> is_in_math_block s)"

text \<open>The two characters a fence can be made of.\<close>

definition is_fence_char :: "char \<Rightarrow> bool" where
  "is_fence_char c = (c = CHR ''`'' \<or> c = CHR ''~'')"

text \<open>The info string of a line that opens a fence: the text that follows the opening run.\<close>

definition fence_info_string :: "string \<Rightarrow> string" where
  "fence_info_string line =
     drop (length (fence_run (dropWhile isspace line))) (dropWhile isspace line)"

text \<open>The test that ends the block the state is in (source lines 190, 194 and 202).\<close>

definition closes_block :: "scan_state \<Rightarrow> string \<Rightarrow> bool" where
  "closes_block s line =
     (if is_in_code_fence s \<or> is_in_code_fence_math s
      then rstrip line = expected_code_fence_close s
      else contains (expected_math_block_close s) line)"

text \<open>What holds of every state the loop reaches from the initial one: the closing token
  of a bracket block never changes, the buffer is empty outside the two math blocks, the
  plain fence excludes the other two blocks, and the closing text of a fence ends with a
  fence character.\<close>

definition state_inv :: "scan_state \<Rightarrow> bool" where
  "state_inv s =
     (expected_math_block_close s = [BSL, CHR '']'']
      \<and> (is_in_code_fence_math s \<or> is_in_math_block s \<or> block_math_lines s = [])
      \<and> (if is_in_code_fence s then \<not> is_in_code_fence_math s \<and> \<not> is_in_math_block s else True)
      \<and> (if is_in_code_fence s \<or> is_in_code_fence_math s
          then expected_code_fence_close s \<noteq> [] \<and> is_fence_char (last (expected_code_fence_close s))
          else True))"

text \<open>Where an item of the scanner comes from: a bracket opening at \<open>math_start\<close> whose
  closing token was found, or a code span at \<open>start\<close> with a dollar sign read at
  \<open>line[start - 1]\<close>.\<close>

definition from_bracket :: "string \<Rightarrow> InlineMathItem \<Rightarrow> bool" where
  "from_bracket line item =
     (\<exists>math_start math_end. im_start item = int math_start
        \<and> str_index line [BSL, CHR '')''] (math_start + 2) = Some math_end)"

definition from_code_span :: "string \<Rightarrow> InlineMathItem \<Rightarrow> bool" where
  "from_code_span line item =
     (\<exists>start. im_start item = int start - 1
        \<and> getitem line (int start - 1) = Inr (CHR ''$''))"

text \<open>The closing test as the specification words it, for a fence opened with the indent
  \<open>indent\<close> and \<open>n\<close> characters \<open>c\<close>: the line without its trailing whitespace is the
  indent and then at least \<open>n\<close> characters \<open>c\<close>, and nothing else.\<close>

definition spec_closes_fence :: "string \<Rightarrow> char \<Rightarrow> nat \<Rightarrow> string \<Rightarrow> bool" where
  "spec_closes_fence indent c n line =
     (take (length indent) (rstrip line) = indent
      \<and> n \<le> length (drop (length indent) (rstrip line))
      \<and> drop (length indent) (rstrip line)
          = replicate (length (drop (length indent) (rstrip line))) c)"

declare inline_math_after.simps [simp del]
declare inline_math_before.simps [simp del]
declare iter_inline_katex_from.simps [simp del]

section \<open>The shape of a fence line\<close>

lemma fence_char_not_space: "is_fence_char c \<Longrightarrow> \<not> isspace c"
  by (auto simp: is_fence_char_def isspace_def)

lemma takeWhile_indent:
  "\<forall>ch\<in>set indent. isspace ch \<Longrightarrow> \<not> isspace c \<Longrightarrow>
     takeWhile isspace (indent @ c # rest) = indent"
  by simp

lemma dropWhile_indent:
  "\<forall>ch\<in>set indent. isspace ch \<Longrightarrow> \<not> isspace c \<Longrightarrow>
     dropWhile isspace (indent @ c # rest) = c # rest"
  by simp

lemma takeWhile_replicate_run:
  "takeWhile (\<lambda>x. x = c) (replicate n c) = replicate n c"
  "d \<noteq> c \<Longrightarrow> takeWhile (\<lambda>x. x = c) (replicate n c @ d # ds) = replicate n c"
  by (induction n) auto

lemma fence_run_replicate:
  assumes "is_fence_char c" "0 < n" "take 1 info \<noteq> [c]"
  shows "fence_run (replicate n c @ info) = replicate n c"
proof -
  from assms(2) obtain k where n: "n = Suc k" by (cases n) auto
  have tw: "takeWhile (\<lambda>d. d = c) (replicate n c @ info) = replicate n c"
  proof (cases info)
    case Nil
    then show ?thesis by (simp add: takeWhile_replicate_run)
  next
    case (Cons d ds)
    with assms(3) have "d \<noteq> c" by simp
    with Cons show ?thesis by (simp add: takeWhile_replicate_run)
  qed
  have "fence_run (replicate n c @ info) = takeWhile (\<lambda>d. d = c) (replicate n c @ info)"
    using assms(1) by (simp add: fence_run_def n is_fence_char_def)
  with tw show ?thesis by simp
qed

lemma fence_line_split:
  assumes "\<forall>ch\<in>set indent. isspace ch" "is_fence_char c" "0 < n"
  shows "takeWhile isspace (indent @ replicate n c @ info) = indent"
    and "dropWhile isspace (indent @ replicate n c @ info) = replicate n c @ info"
proof -
  from assms(3) obtain k where n: "n = Suc k" by (cases n) auto
  have ns: "\<not> isspace c" using assms(2) by (rule fence_char_not_space)
  have line: "indent @ replicate n c @ info = indent @ c # (replicate k c @ info)"
    by (simp add: n)
  show "takeWhile isspace (indent @ replicate n c @ info) = indent"
    unfolding line using assms(1) ns by (rule takeWhile_indent)
  show "dropWhile isspace (indent @ replicate n c @ info) = replicate n c @ info"
    unfolding line using dropWhile_indent [OF assms(1) ns] by (simp add: n)
qed

lemma CODE_FENCE_RE_match_shape:
  assumes "\<forall>ch\<in>set indent. isspace ch" "is_fence_char c" "3 \<le> n" "take 1 info \<noteq> [c]"
  shows "CODE_FENCE_RE_match (indent @ replicate n c @ info) = Some (indent, replicate n c)"
proof -
  have pos: "0 < n" using assms(3) by simp
  note split = fence_line_split [OF assms(1,2) pos]
  have f: "fence_run (replicate n c @ info) = replicate n c"
    using assms(2) pos assms(4) by (rule fence_run_replicate)
  show ?thesis using assms(3) by (simp add: CODE_FENCE_RE_match_def split f)
qed

lemma CODE_FENCE_MATH_START_RE_match_shape:
  assumes "\<forall>ch\<in>set indent. isspace ch" "is_fence_char c" "3 \<le> n" "take 1 info \<noteq> [c]"
  shows "CODE_FENCE_MATH_START_RE_match (indent @ replicate n c @ info)
           = (if take 4 info = ''math'' then Some (indent, replicate n c) else None)"
proof -
  have pos: "0 < n" using assms(3) by simp
  note split = fence_line_split [OF assms(1,2) pos]
  have f: "fence_run (replicate n c @ info) = replicate n c"
    using assms(2) pos assms(4) by (rule fence_run_replicate)
  show ?thesis using assms(3) by (simp add: CODE_FENCE_MATH_START_RE_match_def split f)
qed

lemma after_run_differs: "take 1 (dropWhile (\<lambda>d. d = c) xs) \<noteq> [c]"
  by (induction xs) auto

text \<open>Every line that opens a fence has this shape.\<close>

lemma fence_line_shape:
  assumes "CODE_FENCE_RE_match line = Some (indent, fence)"
  shows "\<exists>c n info. line = indent @ replicate n c @ info \<and> fence = replicate n c
           \<and> (\<forall>ch\<in>set indent. isspace ch) \<and> is_fence_char c \<and> 3 \<le> n \<and> take 1 info \<noteq> [c]"
proof -
  let ?rest = "dropWhile isspace line"
  from assms have indent: "indent = takeWhile isspace line" and fence: "fence = fence_run ?rest"
    and len: "3 \<le> length fence"
    by (auto simp: CODE_FENCE_RE_match_def split: if_splits)
  from fence len obtain c r where rest: "?rest = c # r" and c: "is_fence_char c"
    and run: "fence = takeWhile (\<lambda>d. d = c) ?rest"
    by (cases ?rest) (auto simp: fence_run_def is_fence_char_def split: if_splits)
  have rep: "fence = replicate (length fence) c"
    unfolding run by (rule replicate_length_same [symmetric]) (auto dest: set_takeWhileD)
  let ?info = "dropWhile (\<lambda>d. d = c) ?rest"
  have "take 1 ?info \<noteq> [c]"
    by (rule after_run_differs)
  moreover have "line = indent @ fence @ ?info"
    unfolding indent run by simp
  moreover have "\<forall>ch\<in>set indent. isspace ch"
    unfolding indent by (auto dest: set_takeWhileD)
  ultimately show ?thesis
    using rep c len by metis
qed

section \<open>The loop over the lines\<close>

lemma iter_lines_loop_append:
  "iter_lines_loop s (xs @ ys) =
     (case iter_lines_loop s xs of
        Inl e \<Rightarrow> Inl e
      | Inr (s', out) \<Rightarrow>
          (case iter_lines_loop s' ys of
             Inl e \<Rightarrow> Inl e
           | Inr (s'', out') \<Rightarrow> Inr (s'', out @ out')))"
  by (induction xs arbitrary: s) (auto split: sum.splits)

lemma iter_lines_loop_append_Inr:
  "iter_lines_loop s xs = Inr (s', out) \<Longrightarrow> iter_lines_loop s' ys = Inr (s'', out') \<Longrightarrow>
     iter_lines_loop s (xs @ ys) = Inr (s'', out @ out')"
  by (simp add: iter_lines_loop_append)

lemma iter_lines_loop_snoc:
  "iter_lines_loop s xs = Inr (s', out) \<Longrightarrow> iter_lines_step s' l = Inr (s'', out') \<Longrightarrow>
     iter_lines_loop s (xs @ [l]) = Inr (s'', out @ out')"
  by (simp add: iter_lines_loop_append)

lemma step_in_code_fence:
  "is_in_code_fence s \<Longrightarrow>
     iter_lines_step s line =
       Inr (if rstrip line = expected_code_fence_close s
            then s\<lparr>is_in_code_fence := False\<rparr> else s, [line])"
  by (simp add: iter_lines_step_def)

lemma step_in_code_fence_math_open:
  "\<not> is_in_code_fence s \<Longrightarrow> is_in_code_fence_math s \<Longrightarrow>
   rstrip line \<noteq> expected_code_fence_close s \<Longrightarrow>
     iter_lines_step s line = Inr (s\<lparr>block_math_lines := block_math_lines s @ [line]\<rparr>, [])"
  by (simp add: iter_lines_step_def)

lemma step_in_code_fence_math_close:
  "\<not> is_in_code_fence s \<Longrightarrow> is_in_code_fence_math s \<Longrightarrow>
   rstrip line = expected_code_fence_close s \<Longrightarrow>
     iter_lines_step s line =
       (case enclose_fence_block_math (block_math_lines s @ [line]) of
          Inl e \<Rightarrow> Inl e
        | Inr enclosed_block_math \<Rightarrow>
            Inr (s\<lparr>is_in_code_fence_math := False, block_math_lines := []\<rparr>,
                 [enclosed_block_math]))"
  by (simp add: iter_lines_step_def)

lemma step_in_math_block_open:
  "\<not> is_in_code_fence s \<Longrightarrow> \<not> is_in_code_fence_math s \<Longrightarrow> is_in_math_block s \<Longrightarrow>
   \<not> contains (expected_math_block_close s) line \<Longrightarrow>
     iter_lines_step s line = Inr (s\<lparr>block_math_lines := block_math_lines s @ [line]\<rparr>, [])"
  by (simp add: iter_lines_step_def)

lemma step_in_math_block_close:
  "\<not> is_in_code_fence s \<Longrightarrow> \<not> is_in_code_fence_math s \<Longrightarrow> is_in_math_block s \<Longrightarrow>
   contains (expected_math_block_close s) line \<Longrightarrow>
     iter_lines_step s line =
       Inr (s\<lparr>is_in_math_block := False, block_math_lines := []\<rparr>,
            [enclose_non_fence_block_math (block_math_lines s @ [line])])"
  by (simp add: iter_lines_step_def)

lemma step_normal_fence_math:
  "Normal s \<Longrightarrow> CODE_FENCE_MATH_START_RE_match line = Some (indent, fence) \<Longrightarrow>
     iter_lines_step s line =
       Inr (s\<lparr>is_in_code_fence_math := True,
              expected_code_fence_close := indent @ fence,
              block_math_lines := block_math_lines s @ [line]\<rparr>, [])"
  by (simp add: iter_lines_step_def Normal_def)

lemma step_normal_fence:
  "Normal s \<Longrightarrow> CODE_FENCE_MATH_START_RE_match line = None \<Longrightarrow>
   CODE_FENCE_RE_match line = Some (indent, fence) \<Longrightarrow>
     iter_lines_step s line =
       Inr (s\<lparr>is_in_code_fence := True, expected_code_fence_close := indent @ fence\<rparr>, [line])"
  by (simp add: iter_lines_step_def Normal_def)

lemma no_fence_at_backslash:
  "CODE_FENCE_RE_match (BSL # rest) = None" "CODE_FENCE_MATH_START_RE_match (BSL # rest) = None"
  by (simp_all add: CODE_FENCE_RE_match_def CODE_FENCE_MATH_START_RE_match_def isspace_def
        fence_run_def)

lemma step_normal_bracket:
  assumes "Normal s" "take 2 line = [BSL, CHR ''['']"
  shows "iter_lines_step s line =
           Inr (s\<lparr>is_in_math_block := True,
                  expected_code_fence_close := [BSL, CHR '']''],
                  block_math_lines := block_math_lines s @ [line]\<rparr>, [])"
proof -
  from assms(2) obtain rest where line: "line = BSL # CHR ''['' # rest"
    by (cases line; cases "tl line") auto
  show ?thesis
    using assms(1)
    by (simp add: iter_lines_step_def Normal_def line no_fence_at_backslash
          BLOCK_MATH_START_DELIM_RE_match_def DELIM_START_END_MAP_def)
qed

text \<open>Lines inside a block that do not close it.\<close>

lemma loop_in_code_fence:
  "is_in_code_fence s \<Longrightarrow> \<forall>l\<in>set ls. rstrip l \<noteq> expected_code_fence_close s \<Longrightarrow>
     iter_lines_loop s ls = Inr (s, ls)"
  by (induction ls) (simp_all add: step_in_code_fence)

lemma loop_in_code_fence_math:
  "\<not> is_in_code_fence s \<Longrightarrow> is_in_code_fence_math s \<Longrightarrow>
   \<forall>l\<in>set ls. rstrip l \<noteq> expected_code_fence_close s \<Longrightarrow>
     iter_lines_loop s ls = Inr (s\<lparr>block_math_lines := block_math_lines s @ ls\<rparr>, [])"
proof (induction ls arbitrary: s)
  case Nil
  then show ?case by simp
next
  case (Cons l ls)
  let ?s1 = "s\<lparr>block_math_lines := block_math_lines s @ [l]\<rparr>"
  have step: "iter_lines_step s l = Inr (?s1, [])"
    using Cons.prems by (simp add: step_in_code_fence_math_open)
  have "iter_lines_loop ?s1 ls = Inr (?s1\<lparr>block_math_lines := block_math_lines ?s1 @ ls\<rparr>, [])"
    using Cons.prems by (intro Cons.IH) simp_all
  with step show ?case by simp
qed

lemma loop_in_math_block:
  "\<not> is_in_code_fence s \<Longrightarrow> \<not> is_in_code_fence_math s \<Longrightarrow> is_in_math_block s \<Longrightarrow>
   \<forall>l\<in>set ls. \<not> contains (expected_math_block_close s) l \<Longrightarrow>
     iter_lines_loop s ls = Inr (s\<lparr>block_math_lines := block_math_lines s @ ls\<rparr>, [])"
proof (induction ls arbitrary: s)
  case Nil
  then show ?case by simp
next
  case (Cons l ls)
  let ?s1 = "s\<lparr>block_math_lines := block_math_lines s @ [l]\<rparr>"
  have step: "iter_lines_step s l = Inr (?s1, [])"
    using Cons.prems by (simp add: step_in_math_block_open)
  have "iter_lines_loop ?s1 ls = Inr (?s1\<lparr>block_math_lines := block_math_lines ?s1 @ ls\<rparr>, [])"
    using Cons.prems by (intro Cons.IH) simp_all
  with step show ?case by simp
qed

text \<open>The invariant holds at the start and after every turn.\<close>

lemma state_inv_init: "state_inv init_state"
  by (simp add: state_inv_def init_state_def)

lemma fence_run_last:
  assumes "fence_run r \<noteq> []"
  shows "is_fence_char (last (fence_run r))"
proof (cases r)
  case Nil
  with assms show ?thesis by (simp add: fence_run_def)
next
  case (Cons c r')
  with assms have c: "is_fence_char c" and run: "fence_run r = takeWhile (\<lambda>d. d = c) r"
    by (auto simp: fence_run_def is_fence_char_def split: if_splits)
  from assms run have "last (fence_run r) \<in> set (takeWhile (\<lambda>d. d = c) r)"
    by (metis last_in_set)
  then have "last (fence_run r) = c"
    by (auto dest: set_takeWhileD)
  with c show ?thesis by simp
qed

lemma fence_match_close:
  assumes "CODE_FENCE_RE_match line = Some (indent, fence)
           \<or> CODE_FENCE_MATH_START_RE_match line = Some (indent, fence)"
  shows "indent @ fence \<noteq> [] \<and> is_fence_char (last (indent @ fence))"
proof -
  from assms have f: "fence = fence_run (dropWhile isspace line)" and "3 \<le> length fence"
    by (auto simp: CODE_FENCE_RE_match_def CODE_FENCE_MATH_START_RE_match_def split: if_splits)
  then have ne: "fence \<noteq> []" by auto
  with f have "is_fence_char (last fence)"
    using fence_run_last by blast
  with ne show ?thesis by simp
qed

lemma state_inv_step:
  assumes "state_inv s" "iter_lines_step s line = Inr (s', out)"
  shows "state_inv s'"
proof (cases "is_in_code_fence s")
  case True
  with assms show ?thesis
    by (auto simp: step_in_code_fence state_inv_def split: if_splits)
next
  case nf: False
  show ?thesis
  proof (cases "is_in_code_fence_math s")
    case True
    with nf assms show ?thesis
      by (auto simp: iter_lines_step_def state_inv_def split: if_splits sum.splits)
  next
    case nfm: False
    show ?thesis
    proof (cases "is_in_math_block s")
      case True
      with nf nfm assms show ?thesis
        by (auto simp: iter_lines_step_def state_inv_def split: if_splits)
    next
      case False
      with nf nfm have normal: "Normal s" by (simp add: Normal_def)
      show ?thesis
      proof (cases "CODE_FENCE_MATH_START_RE_match line")
        case (Some m)
        obtain indent fence where m: "m = (indent, fence)" by (cases m)
        from fence_match_close [of line indent fence] Some m
        have "indent @ fence \<noteq> [] \<and> is_fence_char (last (indent @ fence))" by simp
        with assms normal Some m show ?thesis
          by (auto simp: step_normal_fence_math state_inv_def Normal_def)
      next
        case None
        show ?thesis
        proof (cases "CODE_FENCE_RE_match line")
          case (Some m)
          obtain indent fence where m: "m = (indent, fence)" by (cases m)
          from fence_match_close [of line indent fence] Some m
          have "indent @ fence \<noteq> [] \<and> is_fence_char (last (indent @ fence))" by simp
          with assms normal None Some m show ?thesis
            by (auto simp: step_normal_fence state_inv_def Normal_def)
        next
          case nofence: None
          with assms normal None show ?thesis
            by (auto simp: iter_lines_step_def state_inv_def Normal_def
                  split: option.splits sum.splits)
        qed
      qed
    qed
  qed
qed

lemma state_inv_loop:
  "state_inv s \<Longrightarrow> iter_lines_loop s ls = Inr (s', out) \<Longrightarrow> state_inv s'"
proof (induction ls arbitrary: s out)
  case Nil
  then show ?case by simp
next
  case (Cons l ls)
  from Cons.prems(2) obtain s1 out1 out2 where
    "iter_lines_step s l = Inr (s1, out1)" "iter_lines_loop s1 ls = Inr (s', out2)"
    by (auto split: sum.splits)
  with Cons.IH Cons.prems(1) show ?case
    by (blast intro: state_inv_step)
qed

lemma reachable_Normal:
  assumes "iter_lines_loop init_state pre = Inr (s, out)" "Normal s"
  shows "block_math_lines s = []" "expected_math_block_close s = [BSL, CHR '']'']"
  using state_inv_loop [OF state_inv_init assms(1)] assms(2)
  by (simp_all add: state_inv_def Normal_def)

section \<open>The block wrappers\<close>

lemma enclose_non_fence_block_math_eq:
  \<open>enclose_non_fence_block_math (opening # interior @ [closing]) =
     ''<div class="math-block">'' @ [BSL, CHR ''['', LF] @ rstrip (join [LF] interior)
     @ [LF, BSL, CHR '']''] @ ''</div>''\<close>
  by (simp add: enclose_non_fence_block_math_def butlast_append)

lemma slice_from_nat: "slice_from line (int k) = drop k line"
  by (simp add: slice_from_def)

lemma enclose_fence_block_math_Inr:
  "block \<noteq> [] \<Longrightarrow> \<exists>enclosed. enclose_fence_block_math block = Inr enclosed"
  by (cases block) (simp_all add: enclose_fence_block_math_def)

lemma enclose_fence_block_math_eq:
  assumes "\<forall>ch\<in>set indent. isspace ch" "is_fence_char c" "0 < n"
  shows \<open>enclose_fence_block_math ((indent @ replicate n c @ info) # interior @ [closing]) =
           Inr (''<div class="math-block">'' @ [BSL, CHR ''['', LF]
                @ rstrip (join [LF] (map (drop (length indent)) interior))
                @ [LF, BSL, CHR '']''] @ ''</div>'')\<close>
proof -
  have "lstrip (indent @ replicate n c @ info) = replicate n c @ info"
    unfolding lstrip_def using assms by (rule fence_line_split(2))
  then have "length (indent @ replicate n c @ info) - length (lstrip (indent @ replicate n c @ info))
               = length indent"
    by simp
  then show ?thesis
    by (simp add: enclose_fence_block_math_def slice_from_nat butlast_append)
qed

text \<open>The two kinds of fence, from the opening line to a line \<open>l\<close> after lines that do
  not close.\<close>

lemma math_fence_run:
  assumes normal: "Normal s"
    and hmatch: "CODE_FENCE_MATH_START_RE_match line0 = Some (indent, fence)"
    and hls: "\<forall>l\<in>set ls. rstrip l \<noteq> indent @ fence"
  shows "iter_lines_loop s (line0 # ls) =
           Inr (s\<lparr>is_in_code_fence_math := True,
                  expected_code_fence_close := indent @ fence,
                  block_math_lines := block_math_lines s @ line0 # ls\<rparr>, [])"
proof -
  define s1 where "s1 = s\<lparr>is_in_code_fence_math := True,
                            expected_code_fence_close := indent @ fence,
                            block_math_lines := block_math_lines s @ [line0]\<rparr>"
  have step1: "iter_lines_step s line0 = Inr (s1, [])"
    using step_normal_fence_math [OF normal hmatch] by (simp add: s1_def)
  have "iter_lines_loop s1 ls = Inr (s1\<lparr>block_math_lines := block_math_lines s1 @ ls\<rparr>, [])"
    using normal hls by (intro loop_in_code_fence_math) (simp_all add: s1_def Normal_def)
  with step1 show ?thesis by (simp add: s1_def)
qed

lemma plain_fence_run:
  assumes normal: "Normal s"
    and hmath: "CODE_FENCE_MATH_START_RE_match line0 = None"
    and hmatch: "CODE_FENCE_RE_match line0 = Some (indent, fence)"
    and hls: "\<forall>l\<in>set ls. rstrip l \<noteq> indent @ fence"
  shows "iter_lines_loop s (line0 # ls) =
           Inr (s\<lparr>is_in_code_fence := True, expected_code_fence_close := indent @ fence\<rparr>,
                line0 # ls)"
proof -
  define s1 where "s1 = s\<lparr>is_in_code_fence := True, expected_code_fence_close := indent @ fence\<rparr>"
  have step1: "iter_lines_step s line0 = Inr (s1, [line0])"
    using step_normal_fence [OF normal hmath hmatch] by (simp add: s1_def)
  have "iter_lines_loop s1 ls = Inr (s1, ls)"
    using hls by (intro loop_in_code_fence) (simp_all add: s1_def)
  with step1 show ?thesis by (simp add: s1_def)
qed

section \<open>The items of the inline scanner\<close>

lemma yield_then_Inr:
  "yield_then found r = Inr items \<Longrightarrow> \<exists>later. r = Inr later \<and> items = found @ later"
  by (cases r) (simp_all add: yield_then_def)

lemma inline_math_closing:
  "INLINE_MATH_START_DELIM_RE_search line pos = Some m \<Longrightarrow>
     map_of DELIM_START_END_MAP (match_group m) = Some [BSL, CHR '')'']"
  by (drule INLINE_MATH_search_bound) (simp add: DELIM_START_END_MAP_def)

lemma inline_math_after_items:
  "inline_math_after line math_pos = Inr items \<Longrightarrow> \<forall>item\<in>set items. from_bracket line item"
proof (induction line math_pos arbitrary: items rule: inline_math_after.induct)
  case (1 line math_pos)
  show ?case
  proof (cases "INLINE_MATH_START_DELIM_RE_search line math_pos")
    case None
    with "1.prems" show ?thesis
      by (simp add: inline_math_after.simps [of line math_pos])
  next
    case (Some m)
    note b = INLINE_MATH_search_bound [OF Some]
    note cl = inline_math_closing [OF Some]
    show ?thesis
    proof (cases "str_index line [BSL, CHR '')''] (match_end m)")
      case None
      with "1.prems" Some cl
      have "inline_math_after line (match_start m + length (match_group m)) = Inr items"
        by (simp add: inline_math_after.simps [of line math_pos])
      with "1.IH"(1) [OF Some cl None] show ?thesis .
    next
      case found: (Some math_end)
      with "1.prems" Some cl obtain later where
        later: "inline_math_after line (math_end + length (match_group m)) = Inr later"
        and items: "items = \<lparr>im_start = int (match_start m),
                        im_end = int (math_end + length (match_group m)),
                        im_inline_math = slice line (match_start m + length (match_group m)) math_end\<rparr>
                      # later"
        by (auto simp: inline_math_after.simps [of line math_pos] dest!: yield_then_Inr)
      have "\<forall>item\<in>set later. from_bracket line item"
        using "1.IH"(2) [OF Some cl found later] .
      moreover have "str_index line [BSL, CHR '')''] (match_start m + 2) = Some math_end"
        using found b by simp
      ultimately show ?thesis
        by (auto simp: items from_bracket_def)
    qed
  qed
qed

lemma inline_math_before_items:
  "inline_math_before line search_end_pos math_pos = Inr items \<Longrightarrow>
     \<forall>item\<in>set items. from_bracket line item"
proof (induction line search_end_pos math_pos arbitrary: items rule: inline_math_before.induct)
  case (1 line search_end_pos math_pos)
  show ?case
  proof (cases "math_pos \<le> search_end_pos")
    case False
    with "1.prems" show ?thesis
      by (simp add: inline_math_before.simps [of line search_end_pos math_pos])
  next
    case le: True
    show ?thesis
    proof (cases "INLINE_MATH_START_DELIM_RE_search line math_pos")
      case None
      with "1.prems" le show ?thesis
        by (simp add: inline_math_before.simps [of line search_end_pos math_pos])
    next
      case (Some m)
      note b = INLINE_MATH_search_bound [OF Some]
      note cl = inline_math_closing [OF Some]
      show ?thesis
      proof (cases "search_end_pos < match_end m")
        case True
        with "1.prems" le Some show ?thesis
          by (simp add: inline_math_before.simps [of line search_end_pos math_pos])
      next
        case inside: False
        show ?thesis
        proof (cases "str_index line [BSL, CHR '')''] (match_end m)")
          case None
          with "1.prems" le Some inside cl
          have "inline_math_before line search_end_pos (match_start m + length (match_group m))
                  = Inr items"
            by (simp add: inline_math_before.simps [of line search_end_pos math_pos])
          with "1.IH"(1) [OF le Some inside cl None] show ?thesis .
        next
          case found: (Some math_end)
          with "1.prems" le Some inside cl obtain later where
            later: "inline_math_before line search_end_pos (math_end + length (match_group m))
                      = Inr later"
            and items: "items = \<lparr>im_start = int (match_start m),
                        im_end = int (math_end + length (match_group m)),
                        im_inline_math = slice line (match_start m + length (match_group m)) math_end\<rparr>
                      # later"
            by (auto simp: inline_math_before.simps [of line search_end_pos math_pos]
                  dest!: yield_then_Inr)
          have "\<forall>item\<in>set later. from_bracket line item"
            using "1.IH"(2) [OF le Some inside cl found later] .
          moreover have "str_index line [BSL, CHR '')''] (match_start m + 2) = Some math_end"
            using found b by simp
          ultimately show ?thesis
            by (auto simp: items from_bracket_def)
        qed
      qed
    qed
  qed
qed

lemma iter_inline_katex_from_items:
  "iter_inline_katex_from line pos = Inr items \<Longrightarrow>
     \<forall>item\<in>set items. from_bracket line item \<or> from_code_span line item"
proof (induction line pos arbitrary: items rule: iter_inline_katex_from.induct)
  case (1 line pos)
  note unfold = iter_inline_katex_from.simps [of line pos]
  show ?case
  proof (cases "CODE_SPAN_DELIM_RE_search line pos")
    case None
    with "1.prems" have "inline_math_after line pos = Inr items"
      by (simp add: unfold)
    then show ?thesis
      by (auto dest: inline_math_after_items)
  next
    case (Some cm)
    let ?start = "match_start cm" and ?delim = "match_group cm"
    from "1.prems" Some obtain found where
      found: "inline_math_before line ?start pos = Inr found"
      by (auto simp: unfold split: sum.splits)
    then have f: "\<forall>item\<in>set found. from_bracket line item"
      by (rule inline_math_before_items)
    show ?thesis
    proof (cases "str_index line ?delim (?start + length ?delim)")
      case None
      with "1.prems" Some found obtain later where
        "iter_inline_katex_from line (?start + length ?delim) = Inr later"
        "items = found @ later"
        by (auto simp: unfold dest!: yield_then_Inr)
      with "1.IH"(1) [OF Some found None] f show ?thesis
        by auto
    next
      case closed: (Some k)
      let ?end = "k + (length ?delim - 1)"
      from "1.prems" Some found closed obtain char_before where
        cb: "getitem line (int ?start - 1) = Inr char_before"
        by (auto simp: unfold split: sum.splits)
      show ?thesis
      proof (cases "char_before \<noteq> CHR ''$''")
        case True
        with "1.prems" Some found closed cb obtain later where
          "iter_inline_katex_from line ?end = Inr later" "items = found @ later"
          by (auto simp: unfold dest!: yield_then_Inr)
        with "1.IH"(2) [OF Some found closed cb True] f show ?thesis
          by auto
      next
        case dollar: False
        from "1.prems" Some found closed cb dollar obtain char_after where
          ca: "getitem line (int ?end + 1) = Inr char_after"
          by (auto simp: unfold split: sum.splits)
        show ?thesis
        proof (cases "char_after \<noteq> CHR ''$''")
          case True
          with "1.prems" Some found closed cb dollar ca obtain later where
            "iter_inline_katex_from line ?end = Inr later" "items = found @ later"
            by (auto simp: unfold dest!: yield_then_Inr)
          with "1.IH"(3) [OF Some found closed cb dollar ca True] f show ?thesis
            by auto
        next
          case False
          with "1.prems" Some found closed cb dollar ca obtain later where
            later: "iter_inline_katex_from line (?end + length ?delim) = Inr later"
            and items: "items = (found @
                 [\<lparr>im_start = int ?start - 1, im_end = int ?end + 2,
                   im_inline_math = slice line (?start + 1) (?end - length ?delim + 1)\<rparr>]) @ later"
            by (auto simp: unfold dest!: yield_then_Inr)
          have "from_code_span line
                  \<lparr>im_start = int ?start - 1, im_end = int ?end + 2,
                   im_inline_math = slice line (?start + 1) (?end - length ?delim + 1)\<rparr>"
            using cb dollar by (auto simp: from_code_span_def)
          with "1.IH"(4) [OF Some found closed cb dollar ca False later] f show ?thesis
            by (auto simp: items)
        qed
      qed
    qed
  qed
qed

lemma abandoned_opening:
  assumes hopen: "take 2 (drop i line) = [BSL, CHR ''('']"
    and noclose: "str_index line [BSL, CHR '')''] (i + 2) = None"
    and items: "iter_inline_katex line = Inr items"
  shows "\<forall>item\<in>set items. im_start item \<noteq> int i"
proof
  fix item assume "item \<in> set items"
  with items have kinds: "from_bracket line item \<or> from_code_span line item"
    unfolding iter_inline_katex_def by (auto dest: iter_inline_katex_from_items)
  from hopen have "drop i line \<noteq> []" by auto
  then have i: "i < length line" by simp
  then have "drop i line = line ! i # drop (Suc i) line"
    by (simp add: Cons_nth_drop_Suc)
  with hopen have at: "line ! i = BSL" by simp
  show "im_start item \<noteq> int i"
  proof
    assume eq: "im_start item = int i"
    from kinds show False
    proof
      assume "from_bracket line item"
      with eq noclose show False by (auto simp: from_bracket_def)
    next
      assume "from_code_span line item"
      then obtain start where s: "int start - 1 = int i"
        and d: "getitem line (int start - 1) = Inr (CHR ''$'')"
        using eq by (auto simp: from_code_span_def)
      from d s i at show False by (simp add: getitem_def)
    qed
  qed
qed

text \<open>A line with no backtick and no closing token: nothing is reported, and the line
  is emitted as it is.\<close>

lemma find_sub_drop:
  "find_sub sub line = None \<Longrightarrow> find_sub sub (drop p line) = None"
proof (induction line arbitrary: p)
  case Nil
  then show ?case by simp
next
  case (Cons c cs)
  then have rest: "find_sub sub cs = None"
    by (simp split: if_splits)
  show ?case
  proof (cases p)
    case 0
    with Cons.prems show ?thesis by simp
  next
    case (Suc q)
    with Cons.IH [OF rest, of q] show ?thesis by simp
  qed
qed

lemma str_index_absent:
  "\<not> contains sub line \<Longrightarrow> str_index line sub p = None"
  by (simp add: contains_def str_index_def find_sub_drop)

lemma inline_math_after_without_closing:
  "\<not> contains [BSL, CHR '')''] line \<Longrightarrow> inline_math_after line p = Inr []"
proof (induction line p rule: inline_math_after.induct)
  case (1 line math_pos)
  show ?case
  proof (cases "INLINE_MATH_START_DELIM_RE_search line math_pos")
    case None
    then show ?thesis
      by (simp add: inline_math_after.simps [of line math_pos])
  next
    case (Some m)
    note cl = inline_math_closing [OF Some]
    have none: "str_index line [BSL, CHR '')''] (match_end m) = None"
      using "1.prems" by (rule str_index_absent)
    from "1.IH"(1) [OF Some cl none "1.prems"] Some cl none show ?thesis
      by (simp add: inline_math_after.simps [of line math_pos])
  qed
qed

lemma no_items_without_closing:
  assumes "\<not> contains ''`'' line" "\<not> contains [BSL, CHR '')''] line"
  shows "iter_inline_katex line = Inr []"
proof -
  have "CODE_SPAN_DELIM_RE_search line 0 = None"
    using assms(1) by (simp add: CODE_SPAN_DELIM_RE_search_def str_index_absent)
  then show ?thesis
    using inline_math_after_without_closing [OF assms(2), of 0]
    by (simp add: iter_inline_katex_def iter_inline_katex_from.simps [of line 0])
qed

lemma fence_math_needs_fence:
  "CODE_FENCE_RE_match line = None \<Longrightarrow> CODE_FENCE_MATH_START_RE_match line = None"
  by (simp add: CODE_FENCE_RE_match_def CODE_FENCE_MATH_START_RE_match_def split: if_splits)

lemma unclosed_line_unchanged:
  assumes "\<not> contains ''`'' line" "\<not> contains [BSL, CHR '')''] line"
    and "Normal s" "CODE_FENCE_RE_match line = None" "take 2 line \<noteq> [BSL, CHR ''['']"
  shows "iter_lines_step s line = Inr (s, [line])"
  using assms(3-5) no_items_without_closing [OF assms(1,2)] fence_math_needs_fence [OF assms(4)]
  by (simp add: iter_lines_step_def Normal_def BLOCK_MATH_START_DELIM_RE_match_def)

section \<open>Blocks that are never closed\<close>

lemma run_after:
  "iter_lines_loop init_state pre = Inr (s, out) \<Longrightarrow> iter_lines_loop s ls = Inr (s', out') \<Longrightarrow>
     run (pre @ ls) = Inr (out @ out' @ block_math_lines s')"
  by (simp add: run_def iter_lines_loop_append)

lemma unterminated_block_verbatim:
  assumes reach: "iter_lines_loop init_state pre = Inr (s, out)" and normal: "Normal s"
    and hstep: "iter_lines_step s line0 = Inr (s1, out1)" and hin: "\<not> Normal s1"
    and hls: "\<forall>l\<in>set ls. \<not> closes_block s1 l"
  shows "run (pre @ line0 # ls) = Inr (out @ line0 # ls)"
proof -
  note inv = reachable_Normal [OF reach normal]
  show ?thesis
  proof (cases "CODE_FENCE_MATH_START_RE_match line0")
    case (Some m)
    obtain indent fence where m: "CODE_FENCE_MATH_START_RE_match line0 = Some (indent, fence)"
      using Some by (cases m) simp
    from step_normal_fence_math [OF normal m] hstep
    have s1: "s1 = s\<lparr>is_in_code_fence_math := True,
                      expected_code_fence_close := indent @ fence,
                      block_math_lines := block_math_lines s @ [line0]\<rparr>"
      by simp
    with hls have "\<forall>l\<in>set ls. rstrip l \<noteq> indent @ fence"
      by (simp add: closes_block_def)
    from math_fence_run [OF normal m this] run_after [OF reach] inv show ?thesis
      by simp
  next
    case None
    show ?thesis
    proof (cases "CODE_FENCE_RE_match line0")
      case (Some m)
      obtain indent fence where m: "CODE_FENCE_RE_match line0 = Some (indent, fence)"
        using Some by (cases m) simp
      from step_normal_fence [OF normal None m] hstep
      have s1: "s1 = s\<lparr>is_in_code_fence := True, expected_code_fence_close := indent @ fence\<rparr>"
        by simp
      with hls have "\<forall>l\<in>set ls. rstrip l \<noteq> indent @ fence"
        by (simp add: closes_block_def)
      from plain_fence_run [OF normal None m this] run_after [OF reach] inv show ?thesis
        by simp
    next
      case nofence: None
      show ?thesis
      proof (cases "take 2 line0 = [BSL, CHR ''['']")
        case True
        from step_normal_bracket [OF normal True] hstep
        have s1: "s1 = s\<lparr>is_in_math_block := True,
                          expected_code_fence_close := [BSL, CHR '']''],
                          block_math_lines := block_math_lines s @ [line0]\<rparr>"
          and step: "iter_lines_step s line0 = Inr (s1, [])"
          by simp_all
        have flags: "\<not> is_in_code_fence s1" "\<not> is_in_code_fence_math s1" "is_in_math_block s1"
          using normal by (simp_all add: s1 Normal_def)
        with hls have "\<forall>l\<in>set ls. \<not> contains (expected_math_block_close s1) l"
          by (simp add: closes_block_def)
        with flags have "iter_lines_loop s1 ls = Inr (s1\<lparr>block_math_lines := block_math_lines s1 @ ls\<rparr>, [])"
          by (intro loop_in_math_block)
        with step have "iter_lines_loop s (line0 # ls)
                          = Inr (s1\<lparr>block_math_lines := block_math_lines s1 @ ls\<rparr>, [])"
          by simp
        from run_after [OF reach this] inv show ?thesis
          by (simp add: s1)
      next
        case False
        with normal None nofence hstep have "s1 = s"
          by (auto simp: iter_lines_step_def Normal_def BLOCK_MATH_START_DELIM_RE_match_def
                split: sum.splits)
        with normal hin show ?thesis by simp
      qed
    qed
  qed
qed

lemma no_close_facts:
  "rstrip (BSL # ''(no close'') = BSL # ''(no close''"
  "\<not> contains [BSL, CHR '']''] (BSL # ''(no close'')"
  "BLOCK_MATH_START_DELIM_RE_match (BSL # ''(no close'') = None"
  "iter_inline_katex (BSL # ''(no close'') = Inr []"
  by code_simp+

lemma no_close_last_line:
  assumes reach: "iter_lines_loop init_state pre = Inr (s, out)"
  shows "run (pre @ [BSL # ''(no close'']) = Inr (out @ block_math_lines s @ [BSL # ''(no close''])"
proof -
  let ?L = "BSL # ''(no close''"
  have inv: "state_inv s"
    using state_inv_init reach by (rule state_inv_loop)
  have not_fence_close:
    "rstrip ?L \<noteq> expected_code_fence_close s" if "is_in_code_fence s \<or> is_in_code_fence_math s"
  proof
    assume "rstrip ?L = expected_code_fence_close s"
    then have "expected_code_fence_close s = ?L" by (simp add: no_close_facts)
    moreover from inv that have "is_fence_char (last (expected_code_fence_close s))"
      by (auto simp: state_inv_def split: if_splits)
    ultimately show False by (simp add: is_fence_char_def)
  qed
  have "\<exists>s' out'. iter_lines_step s ?L = Inr (s', out')
          \<and> out' @ block_math_lines s' = block_math_lines s @ [?L]"
  proof (cases "is_in_code_fence s")
    case True
    with inv have "block_math_lines s = []"
      by (auto simp: state_inv_def split: if_splits)
    with True not_fence_close show ?thesis
      by (simp add: step_in_code_fence)
  next
    case nf: False
    show ?thesis
    proof (cases "is_in_code_fence_math s")
      case True
      with nf not_fence_close show ?thesis
        by (simp add: step_in_code_fence_math_open)
    next
      case nfm: False
      show ?thesis
      proof (cases "is_in_math_block s")
        case True
        moreover from inv have "expected_math_block_close s = [BSL, CHR '']'']"
          by (simp add: state_inv_def)
        ultimately show ?thesis
          using nf nfm by (simp add: step_in_math_block_open no_close_facts)
      next
        case False
        with inv nf nfm have "block_math_lines s = []"
          by (simp add: state_inv_def)
        with nf nfm False show ?thesis
          by (simp add: iter_lines_step_def no_fence_at_backslash no_close_facts)
      qed
    qed
  qed
  then obtain s' out' where "iter_lines_step s ?L = Inr (s', out')"
    and eq: "out' @ block_math_lines s' = block_math_lines s @ [?L]"
    by blast
  then have "iter_lines_loop s [?L] = Inr (s', out')" by simp
  from run_after [OF reach this] eq show ?thesis by simp
qed

section \<open>The escaper and the inline wrapper\<close>

text \<open>The escaper works position by position, so it distributes over a concatenation
  whose right part does not begin with a character of the class.\<close>

lemma escape_backslashes_append:
  "d \<notin> set escaped_punctuation \<Longrightarrow>
     escape_backslashes (xs @ d # ys) = escape_backslashes xs @ escape_backslashes (d # ys)"
  by (induction xs rule: escape_backslashes.induct) auto

lemma enclose_inline_math_eq:
  \<open>enclose_inline_math body =
     ''<span class="math-inline">'' @ [BSL, BSL, CHR ''(''] @ escape_backslashes body
     @ [BSL, BSL, CHR '')''] @ ''</span>''\<close>
proof -
  have "escape_backslashes (body @ BSL # '')</span>'')
          = escape_backslashes body @ escape_backslashes (BSL # '')</span>'')"
    by (rule escape_backslashes_append) (simp add: escaped_punctuation_def)
  then show ?thesis
    by (simp add: enclose_inline_math_def escaped_punctuation_def)
qed

text \<open>
  Claim C1, as stated: an inline span is wrapped as the span element around backslash,
  parenthesis, body, backslash, parenthesis, with the escaping applied to the body only and
  the wrapper's bracket delimiters left as single-backslash tokens; the line
  \<open>Formula: \(E=mc^2\)\<close> becomes \<open>Formula: <span class="math-inline">\(E=mc^2\)</span>\<close>.
  The code does not produce that line: \<open>_enclose_inline_math\<close> passes the whole wrapped
  text through \<open>escape_backslashes\<close>, and both bracket delimiters of the wrapper are
  a backslash followed by a character of the escaped class.
\<close>

theorem C1_counterexample:
  \<open>run [''Formula: '' @ [BSL] @ ''(E=mc^2'' @ [BSL] @ '')'']
     \<noteq> Inr [''Formula: <span class="math-inline">'' @ [BSL] @ ''(E=mc^2'' @ [BSL] @ '')</span>'']\<close>
  by code_simp

text \<open>
  Claim C1, amended: every replacement of a found span puts, between the text before the
  span and the text after it, the span element around the body escaped as in 4.1, and the
  wrapper's two bracket delimiters are escaped with it: each is written with two
  backslashes. The line \<open>Formula: \(E=mc^2\)\<close> becomes the line with
  \<open>\\(E=mc^2\\)\<close> inside the span element.
\<close>

theorem C1_inline_wrapper:
  \<open>enclose_inline_math body =
     ''<span class="math-inline">'' @ [BSL, BSL, CHR ''(''] @ escape_backslashes body
     @ [BSL, BSL, CHR '')''] @ ''</span>''
   \<and> replace_item line code =
       slice_to line (im_start code)
       @ ''<span class="math-inline">'' @ [BSL, BSL, CHR ''('']
       @ escape_backslashes (im_inline_math code)
       @ [BSL, BSL, CHR '')''] @ ''</span>''
       @ slice_from line (im_end code)
   \<and> run [''Formula: '' @ [BSL] @ ''(E=mc^2'' @ [BSL] @ '')'']
       = Inr [''Formula: <span class="math-inline">'' @ [BSL, BSL] @ ''(E=mc^2''
              @ [BSL, BSL] @ '')</span>'']\<close>
proof -
  have \<open>run [''Formula: '' @ [BSL] @ ''(E=mc^2'' @ [BSL] @ '')'']
       = Inr [''Formula: <span class="math-inline">'' @ [BSL, BSL] @ ''(E=mc^2''
              @ [BSL, BSL] @ '')</span>'']\<close>
    by code_simp
  then show ?thesis
    by (simp add: replace_item_def enclose_inline_math_eq)
qed

section \<open>Exceptions and the GitLab form\<close>

text \<open>
  Claim C2: no list of lines makes the transform raise, and the inline scanner raises on no
  line. The loops of the scanner do end (the three functions above are total), but the
  scanner reads \<open>line[end + 1]\<close> without a test that the index is inside the line: a
  code span that has a dollar sign before it and ends the line raises \<open>IndexError\<close>, and
  the transform raises with it.
\<close>

theorem C2_index_error:
  \<open>iter_inline_katex ''$`a`'' = Inl IndexError \<and> run [''$`a`''] = Inl IndexError\<close>
  by code_simp

text \<open>
  Claim C3: a balanced code span is reported as GitLab inline math exactly when a character
  exists on each side and both are dollar signs, and the inner text is what lies strictly
  inside the backtick runs. On a span of double backticks the code takes the inner text from
  \<open>start + 1\<close>, so the second backtick of the opening run is part of it. A code span at
  index 0 is compared with \<open>line[-1]\<close>, the last character of the line, and is reported
  with the start -1 although no character stands before it.
\<close>

theorem C3_gitlab_inner_text:
  \<open>iter_inline_katex ''$``x``$''
     = Inr [\<lparr>im_start = 0, im_end = 7, im_inline_math = ''`x''\<rparr>]
   \<and> iter_inline_katex ''`a`$$''
     = Inr [\<lparr>im_start = - 1, im_end = 4, im_inline_math = ''a''\<rparr>]\<close>
  by code_simp

text \<open>
  Claim C4: when a code span delimiter lies ahead, a bracket span that is emitted lies
  wholly before it. The code tests that the opening token ends at or before the delimiter,
  and then looks for the closing token in the whole rest of the line: here the emitted span
  runs from 0 to 11 over the code span that starts at 4. With dollar signs around the code
  span, two items that overlap are reported, and the replacement in reverse order, which
  keeps the indexes valid only for items that do not overlap, garbles the line.
\<close>

theorem C4_bracket_span_across_code_span:
  \<open>CODE_SPAN_DELIM_RE_search ([BSL] @ ''(a `b` c'' @ [BSL] @ '')'') 0
     = Some \<lparr>match_start = 4, match_end = 5, match_group = ''`''\<rparr>
   \<and> iter_inline_katex ([BSL] @ ''(a `b` c'' @ [BSL] @ '')'')
     = Inr [\<lparr>im_start = 0, im_end = 11, im_inline_math = ''a `b` c''\<rparr>]
   \<and> iter_inline_katex ([BSL] @ ''(a $`b`$ c'' @ [BSL] @ '')'')
     = Inr [\<lparr>im_start = 0, im_end = 13, im_inline_math = ''a $`b`$ c''\<rparr>,
            \<lparr>im_start = 4, im_end = 9, im_inline_math = ''b''\<rparr>]\<close>
  by code_simp

section \<open>Fences and bracket blocks\<close>

text \<open>
  Claim C5, as stated: a line that opens a fence starts a fenced math block if and only if
  its info string is exactly \<open>math\<close>. The pattern \<open>CODE_FENCE_MATH_START_RE\<close> ends with
  \<open>math\<close> and has no anchor after it: the info string \<open>mathematica\<close> starts a fenced
  math block too.
\<close>

theorem C5_counterexample:
  \<open>CODE_FENCE_RE_match ''```mathematica'' = Some ([], ''```'')
   \<and> fence_info_string ''```mathematica'' = ''mathematica''
   \<and> iter_lines_step init_state ''```mathematica''
       = Inr (init_state\<lparr>is_in_code_fence_math := True,
                           block_math_lines := [''```mathematica'']\<rparr>, [])\<close>
  by code_simp

text \<open>
  Claim C5, amended: a line that opens a fence (whitespace, then a run of \<open>n \<ge> 3\<close>
  backticks or tildes that the next character does not continue, then the info string)
  starts a fenced math block if and only if its info string begins with \<open>math\<close>, and then
  the line is buffered and nothing is emitted; with any other info string, or none, it starts
  a plain fenced code block and is emitted as it is. Every line read inside a plain fence
  is emitted as it is, without scanning.
\<close>

theorem C5_fence_info_string:
  assumes "Normal s" and "\<forall>ch\<in>set indent. isspace ch" and "is_fence_char c" and "3 \<le> n"
    and "take 1 info \<noteq> [c]"
  shows "fence_info_string (indent @ replicate n c @ info) = info
         \<and> iter_lines_step s (indent @ replicate n c @ info) =
             (if take 4 info = ''math''
              then Inr (s\<lparr>is_in_code_fence_math := True,
                          expected_code_fence_close := indent @ replicate n c,
                          block_math_lines := block_math_lines s @ [indent @ replicate n c @ info]\<rparr>,
                        [])
              else Inr (s\<lparr>is_in_code_fence := True,
                          expected_code_fence_close := indent @ replicate n c\<rparr>,
                        [indent @ replicate n c @ info]))
         \<and> (\<forall>s' l. is_in_code_fence s' \<longrightarrow> (\<exists>s''. iter_lines_step s' l = Inr (s'', [l])))"
proof -
  have m: "CODE_FENCE_MATH_START_RE_match (indent @ replicate n c @ info)
             = (if take 4 info = ''math'' then Some (indent, replicate n c) else None)"
    using assms(2-5) by (rule CODE_FENCE_MATH_START_RE_match_shape)
  have f: "CODE_FENCE_RE_match (indent @ replicate n c @ info) = Some (indent, replicate n c)"
    using assms(2-5) by (rule CODE_FENCE_RE_match_shape)
  have pos: "0 < n" using assms(4) by simp
  have i: "fence_info_string (indent @ replicate n c @ info) = info"
    using fence_line_split(2) [OF assms(2,3) pos, of info]
      fence_run_replicate [OF assms(3) pos assms(5)]
    by (simp add: fence_info_string_def)
  have step: "iter_lines_step s (indent @ replicate n c @ info) =
             (if take 4 info = ''math''
              then Inr (s\<lparr>is_in_code_fence_math := True,
                          expected_code_fence_close := indent @ replicate n c,
                          block_math_lines := block_math_lines s @ [indent @ replicate n c @ info]\<rparr>,
                        [])
              else Inr (s\<lparr>is_in_code_fence := True,
                          expected_code_fence_close := indent @ replicate n c\<rparr>,
                        [indent @ replicate n c @ info]))"
    using step_normal_fence_math [OF assms(1), of "indent @ replicate n c @ info" indent "replicate n c"]
      step_normal_fence [OF assms(1), of "indent @ replicate n c @ info" indent "replicate n c"] m f
    by (simp split: if_splits)
  have v: "\<forall>s' l. is_in_code_fence s' \<longrightarrow> (\<exists>s''. iter_lines_step s' l = Inr (s'', [l]))"
    by (simp add: step_in_code_fence)
  from i step v show ?thesis by blast
qed

theorem C5_fence_info_string_witness:
  \<open>fence_info_string ''  ~~~math'' = ''math''
   \<and> iter_lines_step init_state ''  ~~~math''
       = Inr (init_state\<lparr>is_in_code_fence_math := True,
                           expected_code_fence_close := ''  ~~~'',
                           block_math_lines := [''  ~~~math'']\<rparr>, [])
   \<and> fence_info_string ''```python'' = ''python''
   \<and> iter_lines_step init_state ''```python''
       = Inr (init_state\<lparr>is_in_code_fence := True, expected_code_fence_close := ''```''\<rparr>,
              [''```python''])
   \<and> (\<exists>s''. iter_lines_step (init_state\<lparr>is_in_code_fence := True\<rparr>) ''$`a`$''
              = Inr (s'', [''$`a`$'']))\<close>
proof -
  have normal: "Normal init_state"
    by (simp add: Normal_def init_state_def)
  have indent: "\<forall>ch\<in>set ''  ''. isspace ch" "\<forall>ch\<in>set []. isspace ch"
    by (simp_all add: isspace_def)
  have fence: "is_fence_char (CHR ''~'')" "is_fence_char (CHR ''`'')"
    by (simp_all add: is_fence_char_def)
  have len: "3 \<le> Suc (Suc (Suc 0))" by simp
  have info: "take 1 ''math'' \<noteq> [CHR ''~'']" "take 1 ''python'' \<noteq> [CHR ''`'']"
    by simp_all
  have buffer: "block_math_lines init_state = []"
    by (simp add: init_state_def)
  note math = C5_fence_info_string [OF normal indent(1) fence(1) len info(1)]
  note plain = C5_fence_info_string [OF normal indent(2) fence(2) len info(2)]
  from plain have "\<forall>s' l. is_in_code_fence s' \<longrightarrow> (\<exists>s''. iter_lines_step s' l = Inr (s'', [l]))"
    by blast
  then have "\<exists>s''. iter_lines_step (init_state\<lparr>is_in_code_fence := True\<rparr>) ''$`a`$''
               = Inr (s'', [''$`a`$''])"
    by simp
  with math plain buffer show ?thesis
    by simp
qed

text \<open>
  Claim C6, as stated: inside a fence a line closes it exactly when, without its trailing
  whitespace, it is the indent of the opening line and the fence character repeated at
  least as many times as in the opening run. The code compares the line with the indent and
  the opening run itself: after the opening line of three backticks, a line of four
  backticks meets the stated test and leaves the fence open.
\<close>

theorem C6_counterexample:
  \<open>spec_closes_fence [] (CHR ''`'') 3 ''````''
   \<and> iter_lines_loop init_state [''```'', ''````'']
       = Inr (init_state\<lparr>is_in_code_fence := True\<rparr>, [''```'', ''````''])\<close>
  by code_simp

text \<open>
  Claim C6, amended: inside a fence (plain or math) opened with the indent \<open>indent\<close> and a
  run of \<open>n\<close> fence characters \<open>c\<close>, after lines that did not close it, a line closes the
  fence exactly when, without its trailing whitespace, it is the indent and the fence
  character repeated exactly \<open>n\<close> times, with nothing else on the line.
\<close>

theorem C6_fence_close:
  assumes normal: "Normal s"
    and hindent: "\<forall>ch\<in>set indent. isspace ch" and hc: "is_fence_char c" and hn: "3 \<le> n"
    and hinfo: "take 1 info \<noteq> [c]"
    and hls: "\<forall>l\<in>set ls. rstrip l \<noteq> indent @ replicate n c"
  shows "\<exists>s' out'. iter_lines_loop s ((indent @ replicate n c @ info) # ls @ [l]) = Inr (s', out')
           \<and> (Normal s' \<longleftrightarrow> rstrip l = indent @ replicate n c)"
proof -
  let ?line0 = "indent @ replicate n c @ info"
  let ?E = "indent @ replicate n c"
  have m: "CODE_FENCE_MATH_START_RE_match ?line0
             = (if take 4 info = ''math'' then Some (indent, replicate n c) else None)"
    using hindent hc hn hinfo by (rule CODE_FENCE_MATH_START_RE_match_shape)
  have f: "CODE_FENCE_RE_match ?line0 = Some (indent, replicate n c)"
    using hindent hc hn hinfo by (rule CODE_FENCE_RE_match_shape)
  show ?thesis
  proof (cases "take 4 info = ''math''")
    case True
    define s2 where "s2 = s\<lparr>is_in_code_fence_math := True,
                              expected_code_fence_close := ?E,
                              block_math_lines := block_math_lines s @ ?line0 # ls\<rparr>"
    have run: "iter_lines_loop s (?line0 # ls) = Inr (s2, [])"
      unfolding s2_def using normal _ hls by (rule math_fence_run) (simp add: m True)
    have flags: "\<not> is_in_code_fence s2" "is_in_code_fence_math s2" "\<not> is_in_math_block s2"
      "expected_code_fence_close s2 = ?E"
      using normal by (simp_all add: s2_def Normal_def)
    show ?thesis
    proof (cases "rstrip l = ?E")
      case True
      obtain enclosed where "enclose_fence_block_math (block_math_lines s2 @ [l]) = Inr enclosed"
        using enclose_fence_block_math_Inr [of "block_math_lines s2 @ [l]"] by auto
      then have "iter_lines_step s2 l =
                   Inr (s2\<lparr>is_in_code_fence_math := False, block_math_lines := []\<rparr>, [enclosed])"
        using flags True by (simp add: step_in_code_fence_math_close)
      from iter_lines_loop_snoc [OF run this]
      have "iter_lines_loop s (?line0 # ls @ [l]) =
                   Inr (s2\<lparr>is_in_code_fence_math := False, block_math_lines := []\<rparr>, [enclosed])"
        by (simp only: append.simps)
      moreover have "Normal (s2\<lparr>is_in_code_fence_math := False, block_math_lines := []\<rparr>)"
        using flags by (simp add: Normal_def)
      ultimately show ?thesis using True by simp
    next
      case False
      then have "iter_lines_step s2 l = Inr (s2\<lparr>block_math_lines := block_math_lines s2 @ [l]\<rparr>, [])"
        using flags by (simp add: step_in_code_fence_math_open)
      from iter_lines_loop_snoc [OF run this]
      have "iter_lines_loop s (?line0 # ls @ [l]) =
                   Inr (s2\<lparr>block_math_lines := block_math_lines s2 @ [l]\<rparr>, [])"
        by (simp only: append.simps)
      moreover have "\<not> Normal (s2\<lparr>block_math_lines := block_math_lines s2 @ [l]\<rparr>)"
        using flags by (simp add: Normal_def)
      ultimately show ?thesis using False by simp
    qed
  next
    case False
    define s2 where "s2 = s\<lparr>is_in_code_fence := True, expected_code_fence_close := ?E\<rparr>"
    have run: "iter_lines_loop s (?line0 # ls) = Inr (s2, ?line0 # ls)"
      unfolding s2_def using normal _ f hls by (rule plain_fence_run) (simp add: m False)
    have flags: "is_in_code_fence s2" "\<not> is_in_code_fence_math s2" "\<not> is_in_math_block s2"
      "expected_code_fence_close s2 = ?E"
      using normal by (simp_all add: s2_def Normal_def)
    have step: "iter_lines_step s2 l =
                 Inr (if rstrip l = ?E then s2\<lparr>is_in_code_fence := False\<rparr> else s2, [l])"
      using flags by (simp add: step_in_code_fence)
    from iter_lines_loop_snoc [OF run step]
    have "iter_lines_loop s (?line0 # ls @ [l]) =
                 Inr (if rstrip l = ?E then s2\<lparr>is_in_code_fence := False\<rparr> else s2,
                      ?line0 # ls @ [l])"
      by (simp only: append.simps)
    moreover have "Normal (s2\<lparr>is_in_code_fence := False\<rparr>)" "\<not> Normal s2"
      using flags by (simp_all add: Normal_def)
    ultimately show ?thesis by (cases "rstrip l = ?E") simp_all
  qed
qed

theorem C6_fence_close_witness:
  \<open>(\<exists>s' out'. iter_lines_loop init_state ['' ```py'', ''code'', '' ````'', '' ```  ''] = Inr (s', out')
        \<and> Normal s')
   \<and> (\<exists>s' out'. iter_lines_loop init_state ['' ```py'', ''code'', '' ````''] = Inr (s', out')
        \<and> \<not> Normal s')\<close>
proof -
  have normal: "Normal init_state"
    by (simp add: Normal_def init_state_def)
  have indent: "\<forall>ch\<in>set '' ''. isspace ch"
    by (simp add: isspace_def)
  have fence: "is_fence_char (CHR ''`'')"
    by (simp add: is_fence_char_def)
  have len: "3 \<le> Suc (Suc (Suc 0))" by simp
  have info: "take 1 ''py'' \<noteq> [CHR ''`'']"
    by simp
  have ls: "\<forall>l\<in>set [''code'', '' ````'']. rstrip l \<noteq> '' '' @ replicate (Suc (Suc (Suc 0))) (CHR ''`'')"
    "\<forall>l\<in>set [''code'']. rstrip l \<noteq> '' '' @ replicate (Suc (Suc (Suc 0))) (CHR ''`'')"
    by (simp_all add: rstrip_def isspace_def)
  have r: "rstrip '' ```  '' = '' ```''" "rstrip '' ````'' = '' ````''"
    by (simp_all add: rstrip_def isspace_def)
  show ?thesis
    using C6_fence_close [OF normal indent fence len info ls(1), of "'' ```  ''"]
      C6_fence_close [OF normal indent fence len info ls(2), of "'' ````''"] r
    by simp
qed

text \<open>
  Claim C7, as stated: in the state \<open>Normal\<close>, a line that is not a fence opening and that
  begins with backslash, bracket after optional leading whitespace starts a bracket block.
  \<open>BLOCK_MATH_START_DELIM_RE.match\<close> is anchored at index 0 and the pattern allows no
  whitespace: the indented line leaves the state as it is and is emitted.
\<close>

theorem C7_counterexample:
  \<open>CODE_FENCE_RE_match (''  '' @ [BSL, CHR ''['']) = None
   \<and> take 2 (lstrip (''  '' @ [BSL, CHR ''[''])) = [BSL, CHR ''['']
   \<and> iter_lines_step init_state (''  '' @ [BSL, CHR ''[''])
       = Inr (init_state, [''  '' @ [BSL, CHR ''['']])\<close>
  by code_simp

text \<open>
  Claim C7, amended: in the state \<open>Normal\<close>, every line whose first two characters are
  backslash, bracket (no whitespace before them; such a line is never a fence opening)
  moves the state machine to the bracket block and starts a new buffer that holds this
  line only; nothing is emitted.
\<close>

theorem C7_bracket_block_start:
  assumes "iter_lines_loop init_state pre = Inr (s, out)" and "Normal s"
    and "take 2 line = [BSL, CHR ''['']"
  shows "CODE_FENCE_RE_match line = None
         \<and> iter_lines_step s line =
             Inr (s\<lparr>is_in_math_block := True,
                    expected_code_fence_close := [BSL, CHR '']''],
                    block_math_lines := [line]\<rparr>, [])"
proof -
  from assms(3) obtain rest where "line = BSL # rest"
    by (cases line) auto
  then have "CODE_FENCE_RE_match line = None"
    by (simp add: no_fence_at_backslash)
  moreover have "block_math_lines s = []"
    using assms(1,2) by (rule reachable_Normal)
  ultimately show ?thesis
    using step_normal_bracket [OF assms(2,3)] by simp
qed

theorem C7_bracket_block_start_witness:
  \<open>CODE_FENCE_RE_match ([BSL, CHR ''[''] @ '' x'') = None
   \<and> iter_lines_step init_state ([BSL, CHR ''[''] @ '' x'')
       = Inr (init_state\<lparr>is_in_math_block := True,
                           expected_code_fence_close := [BSL, CHR '']''],
                           block_math_lines := [[BSL, CHR ''[''] @ '' x'']\<rparr>, [])\<close>
proof -
  have reach: "iter_lines_loop init_state [] = Inr (init_state, [])"
    by simp
  have normal: "Normal init_state"
    by (simp add: Normal_def init_state_def)
  have start: "take 2 ([BSL, CHR ''[''] @ '' x'') = [BSL, CHR ''['']"
    by simp
  show ?thesis
    using C7_bracket_block_start [OF reach normal start] by simp
qed

section \<open>Closed and unclosed blocks\<close>

text \<open>A fenced math block that closes, read from a reachable state \<open>Normal\<close>: the
  whole range becomes one output line, and the code takes from every interior line as many
  characters as the indent of the opening line is long, whatever they are.\<close>

lemma fenced_math_block_closes:
  assumes reach: "iter_lines_loop init_state pre = Inr (s, out)" and normal: "Normal s"
    and hindent: "\<forall>ch\<in>set indent. isspace ch" and hc: "is_fence_char c" and hn: "3 \<le> n"
    and hinterior: "\<forall>l\<in>set interior. rstrip l \<noteq> indent @ replicate n c"
    and hclose: "rstrip closing = indent @ replicate n c"
  shows \<open>iter_lines_loop init_state
            (pre @ (indent @ replicate n c @ ''math'' @ rest) # interior @ [closing]) =
           Inr (s\<lparr>expected_code_fence_close := indent @ replicate n c\<rparr>,
                out @ [''<div class="math-block">'' @ [BSL, CHR ''['', LF]
                       @ rstrip (join [LF] (map (drop (length indent)) interior))
                       @ [LF, BSL, CHR '']''] @ ''</div>''])
         \<and> Normal (s\<lparr>expected_code_fence_close := indent @ replicate n c\<rparr>)\<close>
proof -
  let ?line0 = "indent @ replicate n c @ ''math'' @ rest"
  let ?E = "indent @ replicate n c"
  note inv = reachable_Normal [OF reach normal]
  have pos: "0 < n" using hn by simp
  have "take 1 (''math'' @ rest) \<noteq> [c]"
    using hc by (auto simp: is_fence_char_def)
  then have m: "CODE_FENCE_MATH_START_RE_match ?line0 = Some (indent, replicate n c)"
    using CODE_FENCE_MATH_START_RE_match_shape [OF hindent hc hn, of "''math'' @ rest"] by simp
  define s2 where "s2 = s\<lparr>is_in_code_fence_math := True,
                            expected_code_fence_close := ?E,
                            block_math_lines := ?line0 # interior\<rparr>"
  have run: "iter_lines_loop s (?line0 # interior) = Inr (s2, [])"
    using math_fence_run [OF normal m hinterior] inv by (simp add: s2_def)
  have flags: "\<not> is_in_code_fence s2" "is_in_code_fence_math s2"
    "expected_code_fence_close s2 = ?E" "block_math_lines s2 = ?line0 # interior"
    using normal by (simp_all add: s2_def Normal_def)
  have final: "s2\<lparr>is_in_code_fence_math := False, block_math_lines := []\<rparr>
                 = s\<lparr>expected_code_fence_close := ?E\<rparr>"
    using normal inv by (cases s) (simp add: s2_def Normal_def)
  have step: \<open>iter_lines_step s2 closing =
          Inr (s\<lparr>expected_code_fence_close := ?E\<rparr>,
               [''<div class="math-block">'' @ [BSL, CHR ''['', LF]
                @ rstrip (join [LF] (map (drop (length indent)) interior))
                @ [LF, BSL, CHR '']''] @ ''</div>''])\<close>
    using step_in_code_fence_math_close [of s2 closing] flags hclose final
      enclose_fence_block_math_eq [OF hindent hc pos, of "''math'' @ rest" interior closing]
    by simp
  from iter_lines_loop_snoc [OF run step]
  have block: \<open>iter_lines_loop s (?line0 # interior @ [closing]) =
          Inr (s\<lparr>expected_code_fence_close := ?E\<rparr>,
               [''<div class="math-block">'' @ [BSL, CHR ''['', LF]
                @ rstrip (join [LF] (map (drop (length indent)) interior))
                @ [LF, BSL, CHR '']''] @ ''</div>''])\<close>
    by (simp only: append.simps)
  have "Normal (s\<lparr>expected_code_fence_close := ?E\<rparr>)"
    using normal by (simp add: Normal_def)
  with iter_lines_loop_append_Inr [OF reach block] show ?thesis
    by (rule conjI)
qed

text \<open>
  Claim C8: a fenced math block that closes becomes one output line, the block wrapper
  around the interior lines, each with the indent prefix of the opening fence removed,
  joined by newlines and trimmed on the right, with no escaping. The code computes the
  indent text of the opening line (\<open>indent_text\<close>) and never uses it: it slices
  \<open>line[indent_len:]\<close> without a test that the line begins with the indent. Under a fence
  indented by two spaces, the interior line \<open>x+1=2\<close> has no indent prefix to remove and
  loses the first two characters of the formula; the same line with the indent is
  dedented as the claim says.
\<close>

theorem C8_dedent_drops_text:
  \<open>run [''  ```math'', ''x+1=2'', ''  ```'']
     = Inr [''<div class="math-block">'' @ [BSL, CHR ''['', LF] @ ''1=2''
            @ [LF, BSL, CHR '']''] @ ''</div>'']
   \<and> run [''  ```math'', ''  x+1=2'', ''  ```'']
     = Inr [''<div class="math-block">'' @ [BSL, CHR ''['', LF] @ ''x+1=2''
            @ [LF, BSL, CHR '']''] @ ''</div>'']\<close>
  by code_simp

text \<open>
  Claim C9: what is never closed passes through as it is: the lines of a block that the
  document does not close are emitted unchanged and unwrapped, and an inline opening
  (backslash, parenthesis) with no closing token later on the line is given up and its text
  is left as it is; a document that ends with the line \<open>\(no close\<close> is returned as it is.
  The part on blocks holds (\<open>unterminated_block_verbatim\<close>), and so does the part on the
  inline opening for a line without backticks (\<open>abandoned_opening\<close>,
  \<open>unclosed_line_unchanged\<close>, \<open>no_close_last_line\<close>). It fails where the line holds a code
  span as well: the opening that has no closing token is given up, and then the scanner
  reads \<open>line[end + 1]\<close> past the end of the line and raises \<open>IndexError\<close>, so nothing
  is returned; and a code span at index 0 between a dollar sign after it and one at the end
  of the line is replaced from index -1, which repeats the text of the unclosed opening in
  the output.
\<close>

theorem C9_unterminated_opening_raises:
  \<open>str_index ([BSL] @ ''(x $`a`'') [BSL, CHR '')''] 0 = None
   \<and> iter_inline_katex ([BSL] @ ''(x $`a`'') = Inl IndexError
   \<and> run [[BSL] @ ''(x $`a`''] = Inl IndexError
   \<and> run [''`a`$ '' @ [BSL] @ ''(y$'']
       = Inr [''`a`$ '' @ [BSL] @ ''(y''
              @ ''<span class="math-inline">'' @ [BSL, BSL] @ ''(a'' @ [BSL, BSL] @ '')</span>''
              @ '' '' @ [BSL] @ ''(y$'']\<close>
  by code_simp

text \<open>
  Claim C10: for every bracket block that closes (a line that begins with backslash,
  bracket, read in the state \<open>Normal\<close>; then lines without the closing token; then the first
  line that contains backslash, closing bracket), the emitted body is made of the lines
  strictly between the opening line and the closing line, joined by newlines and trimmed on
  the right. The output does not depend on the opening line or on the closing line: what
  follows the opening token and all the text of the closing line are dropped.
\<close>

theorem C10_bracket_block_body:
  assumes reach: "iter_lines_loop init_state pre = Inr (s, out)" and normal: "Normal s"
    and hopen: "take 2 opening = [BSL, CHR ''['']"
    and hinterior: "\<forall>l\<in>set interior. \<not> contains [BSL, CHR '']''] l"
    and hclose: "contains [BSL, CHR '']''] closing"
  shows \<open>iter_lines_loop init_state (pre @ opening # interior @ [closing]) =
           Inr (s\<lparr>expected_code_fence_close := [BSL, CHR '']'']\<rparr>,
                out @ [''<div class="math-block">'' @ [BSL, CHR ''['', LF]
                       @ rstrip (join [LF] interior)
                       @ [LF, BSL, CHR '']''] @ ''</div>''])\<close>
proof -
  note inv = reachable_Normal [OF reach normal]
  define s1 where "s1 = s\<lparr>is_in_math_block := True,
                            expected_code_fence_close := [BSL, CHR '']''],
                            block_math_lines := [opening]\<rparr>"
  define s2 where "s2 = s1\<lparr>block_math_lines := opening # interior\<rparr>"
  have flags1: "\<not> is_in_code_fence s1" "\<not> is_in_code_fence_math s1" "is_in_math_block s1"
    "expected_math_block_close s1 = [BSL, CHR '']'']" "block_math_lines s1 = [opening]"
    using normal inv by (simp_all add: s1_def Normal_def)
  have flags2: "\<not> is_in_code_fence s2" "\<not> is_in_code_fence_math s2" "is_in_math_block s2"
    "expected_math_block_close s2 = [BSL, CHR '']'']" "block_math_lines s2 = opening # interior"
    using flags1 by (simp_all add: s2_def)
  have step1: "iter_lines_step s opening = Inr (s1, [])"
    using step_normal_bracket [OF normal hopen] inv by (simp add: s1_def)
  have loop2: "iter_lines_loop s1 interior = Inr (s2, [])"
    using loop_in_math_block [of s1 interior] flags1 hinterior by (simp add: s2_def)
  have final: "s2\<lparr>is_in_math_block := False, block_math_lines := []\<rparr>
                 = s\<lparr>expected_code_fence_close := [BSL, CHR '']'']\<rparr>"
    using normal inv by (cases s) (simp add: s2_def s1_def Normal_def)
  have step3: "iter_lines_step s2 closing =
                 Inr (s\<lparr>expected_code_fence_close := [BSL, CHR '']'']\<rparr>,
                      [enclose_non_fence_block_math (opening # interior @ [closing])])"
    using step_in_math_block_close [of s2 closing] flags2 hclose final by simp
  have "iter_lines_loop s (opening # interior) = Inr (s2, [])"
    using step1 loop2 by simp
  from iter_lines_loop_snoc [OF this step3]
  have block: "iter_lines_loop s (opening # interior @ [closing]) =
                 Inr (s\<lparr>expected_code_fence_close := [BSL, CHR '']'']\<rparr>,
                      [enclose_non_fence_block_math (opening # interior @ [closing])])"
    by (simp only: append.simps)
  show ?thesis
    using iter_lines_loop_append_Inr [OF reach block]
    by (simp only: enclose_non_fence_block_math_eq)
qed

theorem C10_bracket_block_body_witness:
  \<open>iter_lines_loop init_state
      [''text'', [BSL, CHR ''[''] @ ''dropped'', ''x'', ''y  '', ''before'' @ [BSL, CHR '']''] @ ''after'']
     = Inr (init_state\<lparr>expected_code_fence_close := [BSL, CHR '']'']\<rparr>,
            [''text'',
             ''<div class="math-block">'' @ [BSL, CHR ''['', LF] @ ''x'' @ [LF] @ ''y''
             @ [LF, BSL, CHR '']''] @ ''</div>''])\<close>
proof -
  have reach: "iter_lines_loop init_state [''text''] = Inr (init_state, [''text''])"
    by code_simp
  have normal: "Normal init_state"
    by (simp add: Normal_def init_state_def)
  have hopen: "take 2 ([BSL, CHR ''[''] @ ''dropped'') = [BSL, CHR ''['']"
    by simp
  have interior: "\<forall>l\<in>set [''x'', ''y  '']. \<not> contains [BSL, CHR '']''] l"
    by (simp add: contains_def)
  have closing: "contains [BSL, CHR '']''] (''before'' @ [BSL, CHR '']''] @ ''after'')"
    by code_simp
  have body: "rstrip (join [LF] [''x'', ''y  '']) = ''x'' @ [LF] @ ''y''"
    by (simp add: rstrip_def isspace_def)
  show ?thesis
    using C10_bracket_block_body [OF reach normal hopen interior closing] body
    by simp
qed

end
